theory Spec2Isabelle
  imports
    Main
    "HOL-Library.Char_ord"
    "HOL-Library.List_Lexorder"
    "HOL-Library.Multiset"
begin

text \<open>
  A shallow embedding of parts of the m-ld JavaScript clone engine: the keys and the
  walks of the journal, the encoding of operation buffers, the reification of triples
  with their transaction ids (TIDs), the initialisation of a clone, and the SU-Set
  dataset. Definitions come first, their properties after.
\<close>


section \<open>Journal keys (engine/journal/index.ts)\<close>

text \<open>
  The journal indexes its entries by end-tick under the key
  \<^verbatim>\<open>_qs:tick:${TICK_KEY_PAD.concat(tick.toString(36)).slice(-8)}\<close>.
  Ticks are non-negative integers (\<open>nat\<close>); strings are lists of characters
  and are compared, as in JavaScript, code unit by code unit (all characters
  involved are ASCII).
\<close>

definition TICK_KEY_LEN :: nat where
  "TICK_KEY_LEN = 8"

definition TICK_KEY_RADIX :: nat where
  "TICK_KEY_RADIX = 36"

definition TICK_KEY_PAD :: string where
  "TICK_KEY_PAD = replicate TICK_KEY_LEN (CHR ''0'')"

text \<open>The digit characters of \<open>Number.prototype.toString(radix)\<close>: \<open>0..9\<close> then \<open>a..z\<close>.\<close>

definition digit_char :: "nat \<Rightarrow> char" where
  "digit_char d = (if d < 10 then char_of (48 + d) else char_of (87 + d))"

text \<open>
  \<open>n.toString(radix)\<close> for a non-negative integer \<open>n\<close> and \<open>2 \<le> radix \<le> 36\<close>.
  JavaScript throws for another radix; none is used here.
\<close>

function toString_radix :: "nat \<Rightarrow> nat \<Rightarrow> string" where
  "toString_radix radix n =
     (if radix < 2 \<or> n < radix then [digit_char n]
      else toString_radix radix (n div radix) @ [digit_char (n mod radix)])"
  by pat_completeness auto
termination
  by (relation "measure snd") auto

declare toString_radix.simps [simp del]

text \<open>\<open>s.slice(-k)\<close>: the last \<open>k\<close> characters of \<open>s\<close>, or all of \<open>s\<close> when it is shorter.\<close>

definition slice_last :: "nat \<Rightarrow> string \<Rightarrow> string" where
  "slice_last k s = drop (length s - k) s"

definition tickKey :: "nat \<Rightarrow> string" where
  "tickKey tick =
     ''_qs:tick:'' @ slice_last TICK_KEY_LEN (TICK_KEY_PAD @ toString_radix TICK_KEY_RADIX tick)"

text \<open>The \<open>k\<close> low base-36 digits of \<open>n\<close>, most significant first.\<close>

fun fixed_width :: "nat \<Rightarrow> nat \<Rightarrow> string" where
  "fixed_width 0 n = []"
| "fixed_width (Suc k) n = fixed_width k (n div 36) @ [digit_char (n mod 36)]"

definition tidEntryKey :: "string \<Rightarrow> string" where
  "tidEntryKey tid = ''_qs:tid:'' @ tid"

definition tidOpKey :: "string \<Rightarrow> string" where
  "tidOpKey tid = ''_qs:op:'' @ tid"


section \<open>The journal over a key-value store (engine/journal/index.ts)\<close>

text \<open>
  Errors thrown by the engine, as values.
\<close>

datatype error =
    MissingJournal
  | JournalCorrupted string
  | TypeError string
  | BadUpdate string
  | DecodeFailed
  | OperationSizeExceeded

text \<open>
  A \<open>MeldOperation\<close> as the journal uses it: the first tick \<open>from\<close> of its range,
  its \<open>time\<close> (a tree clock, of type \<open>'t\<close>) and its content \<open>'p\<close> (deletes and inserts).
  A \<open>JournalOperation\<close> adds the transaction id and the tick under which it is stored;
  \<open>asMeldOperation\<close> is the projection \<open>jo_meld\<close>. Ticks are JavaScript numbers
  holding integers, hence \<open>int\<close>.
\<close>

record ('t, 'p) MeldOperation =
  op_from :: int
  op_time :: 't
  op_data :: 'p

record ('t, 'p) JournalOperation =
  jo_tid :: string
  jo_tick :: int
  jo_meld :: "('t, 'p) MeldOperation"

text \<open>The journal state \<open>(tailTick, time, gwc)\<close>; \<open>'g\<close> is the global clock.\<close>

record ('t, 'g) JournalState =
  js_tailTick :: int
  js_time :: 't
  js_gwc :: 'g

text \<open>
  What the store holds. The code stores message-pack buffers and decodes them on
  reading; here a stored value is the decoded JSON itself: the journal state under
  \<open>_qs:journal\<close>, an entry \<open>[prev, tid]\<close> (with \<open>prev = [prevTick, prevTid]\<close>) under
  the tick key and under \<open>_qs:tid:tid\<close>, an operation under \<open>_qs:op:tid\<close>. The journal
  writes each kind of value under its kind of key only; a value of another kind under a
  key is read as no entry or no operation.
\<close>

datatype ('t, 'g, 'p) kv_value =
    JournalV "('t, 'g) JournalState"
  | EntryV "int \<times> string" string
  | OperationV "('t, 'p) MeldOperation"

datatype 'v batch_op = Put string 'v | Del string

type_synonym ('t, 'g, 'p) kvp_store = "string \<rightharpoonup> ('t, 'g, 'p) kv_value"

fun batch_apply :: "(string \<rightharpoonup> 'v) \<Rightarrow> 'v batch_op list \<Rightarrow> (string \<rightharpoonup> 'v)" where
  "batch_apply st [] = st"
| "batch_apply st (Put k v # ops) = batch_apply (st(k \<mapsto> v)) ops"
| "batch_apply st (Del k # ops) = batch_apply (st(k := None)) ops"

text \<open>The journal object: the store and the cache \<open>_state\<close> of the journal state.\<close>

record ('t, 'g, 'p) Journal =
  store :: "('t, 'g, 'p) kvp_store"
  state_cache :: "('t, 'g) JournalState option"

definition JOURNAL_KEY :: string where
  "JOURNAL_KEY = ''_qs:journal''"

text \<open>\<open>Journal.state()\<close>: the cached state, else the stored one (then cached), else an error.\<close>

definition state :: "('t, 'g, 'p) Journal \<Rightarrow> error + (('t, 'g, 'p) Journal \<times> ('t, 'g) JournalState)" where
  "state J =
     (case state_cache J of
        Some s \<Rightarrow> Inr (J, s)
      | None \<Rightarrow>
          (case store J JOURNAL_KEY of
             Some (JournalV s) \<Rightarrow> Inr (J\<lparr>state_cache := Some s\<rparr>, s)
           | Some _ \<Rightarrow> Inl DecodeFailed
           | None \<Rightarrow> Inl MissingJournal))"

text \<open>\<open>Journal.entryPrev(tid)\<close>: the \<open>prev\<close> of the entry indexed under the TID, if any.\<close>

definition entryPrev :: "('t, 'g, 'p) Journal \<Rightarrow> string \<Rightarrow> (int \<times> string) option" where
  "entryPrev J tid =
     (case store J (tidEntryKey tid) of
        Some (EntryV prev _) \<Rightarrow> Some prev
      | _ \<Rightarrow> None)"

text \<open>\<open>Journal.operation(tid)\<close> and, with \<open>'require'\<close>, \<open>Journal.meldOperation(tid)\<close>.\<close>

definition operation :: "('t, 'g, 'p) Journal \<Rightarrow> string \<Rightarrow> ('t, 'p) MeldOperation option" where
  "operation J tid =
     (case store J (tidOpKey tid) of
        Some (OperationV op) \<Rightarrow> Some op
      | _ \<Rightarrow> None)"

definition meldOperation :: "('t, 'g, 'p) Journal \<Rightarrow> string \<Rightarrow> error + ('t, 'p) MeldOperation" where
  "meldOperation J tid =
     (case operation J tid of
        Some op \<Rightarrow> Inr op
      | None \<Rightarrow> Inl (JournalCorrupted tid))"

text \<open>
  \<open>withLockedHistory\<close> runs a procedure under the history lock and commits the
  key-value batch it returns.
\<close>

definition commit_kvps :: "('t, 'g, 'p) Journal \<Rightarrow> ('t, 'g, 'p) kv_value batch_op list \<Rightarrow> ('t, 'g, 'p) Journal" where
  "commit_kvps J kvps = J\<lparr>store := batch_apply (store J) kvps\<rparr>"

text \<open>The loop \<open>for (let gwcTid of gwc.tids()) if (tid === gwcTid) return false\<close>.\<close>

fun in_gwc_tids :: "string \<Rightarrow> string list \<Rightarrow> bool" where
  "in_gwc_tids tid [] = False"
| "in_gwc_tids tid (gwcTid # rest) = (if tid = gwcTid then True else in_gwc_tids tid rest)"

text \<open>
  \<open>Journal.disposeOperationIfUnreferenced(tid)\<close>. The parameter \<open>tids\<close> is
  \<open>GlobalClock.tids()\<close>. The result is the journal after the transaction and the
  returned flag.
\<close>

definition disposeOperationIfUnreferenced ::
  "('g \<Rightarrow> string list) \<Rightarrow> ('t, 'g, 'p) Journal \<Rightarrow> string \<Rightarrow> error + (('t, 'g, 'p) Journal \<times> bool)" where
  "disposeOperationIfUnreferenced tids J tid =
     (if tidEntryKey tid \<in> dom (store J) then Inr (J, False)
      else
        (case state J of
           Inl e \<Rightarrow> Inl e
         | Inr (J1, s) \<Rightarrow>
             if in_gwc_tids tid (tids (js_gwc s)) then Inr (J1, False)
             else Inr (commit_kvps J1 [Del (tidOpKey tid)], True)))"

text \<open>
  \<open>Journal.causalReduce\<close>. The inner \<open>seekToFrom\<close> walks back along the stored
  \<open>prev\<close> links, putting each previous operation at the front of \<open>history\<close>, which is
  never empty: it is kept here as its head \<open>currentOp\<close> and its tail \<open>later\<close>.
  \<open>ticked\<close> and \<open>isZeroId\<close> are the tree clock's methods. The walk need not end on an
  arbitrary store, so its result is optional, \<open>None\<close> standing for no result.
\<close>

partial_function (option) seekToFrom ::
  "('t \<Rightarrow> int \<Rightarrow> 't) \<Rightarrow> ('t \<Rightarrow> bool) \<Rightarrow> ('t, 'g, 'p) Journal \<Rightarrow> int \<Rightarrow>
   ('t, 'p) MeldOperation \<Rightarrow> ('t, 'p) MeldOperation list \<Rightarrow> int \<Rightarrow> string \<Rightarrow>
   (error + ('t, 'p) MeldOperation \<times> ('t, 'p) MeldOperation list) option" where
  "seekToFrom ticked_at is_zero_id J minFrom currentOp later tick tid =
     (case entryPrev J tid of
        None \<Rightarrow> Some (Inr (currentOp, later))
      | Some (prevTick, prevTid) \<Rightarrow>
          if prevTick \<ge> minFrom
             \<and> prevTick = op_from currentOp - 1
             \<and> \<not> is_zero_id (ticked_at (op_time currentOp) prevTick)
          then
            (case meldOperation J prevTid of
               Inl e \<Rightarrow> Some (Inl e)
             | Inr prevOp \<Rightarrow>
                 seekToFrom ticked_at is_zero_id J minFrom prevOp (currentOp # later) prevTick prevTid)
          else Some (Inr (currentOp, later)))"

text \<open>
  The reduction operator made by \<open>createOperator\<close>: its state \<open>'s\<close>, \<open>next\<close> feeding
  one more operation and \<open>commit\<close> giving the reduced operation, which
  \<open>toMeldOperation\<close> encodes.
\<close>

record ('t, 'p, 's, 'c) CausalOperator =
  createOperator :: "('t, 'p) MeldOperation \<Rightarrow> 's"
  operator_next :: "'s \<Rightarrow> ('t, 'p) MeldOperation \<Rightarrow> 's"
  operator_commit :: "'s \<Rightarrow> 'c"
  toMeldOperation :: "'c \<Rightarrow> ('t, 'p) MeldOperation"

definition fastForward ::
  "('t, 'p, 's, 'c) CausalOperator \<Rightarrow> ('t, 'p) MeldOperation \<Rightarrow> ('t, 'p) MeldOperation list \<Rightarrow>
   ('t, 'p) MeldOperation" where
  "fastForward cop first later =
     toMeldOperation cop
       (operator_commit cop (foldl (operator_next cop) (createOperator cop first) later))"

definition causalReduce ::
  "('t \<Rightarrow> int \<Rightarrow> 't) \<Rightarrow> ('t \<Rightarrow> bool) \<Rightarrow> ('t, 'g, 'p) Journal \<Rightarrow>
   ('t, 'p) JournalOperation \<Rightarrow> ('t, 'p, 's, 'c) CausalOperator \<Rightarrow> int \<Rightarrow>
   (error + ('t, 'p) MeldOperation) option" where
  "causalReduce ticked_at is_zero_id J op cop minFrom =
     (case seekToFrom ticked_at is_zero_id J minFrom (jo_meld op) [] (jo_tick op) (jo_tid op) of
        None \<Rightarrow> None
      | Some (Inl e) \<Rightarrow> Some (Inl e)
      | Some (Inr (first, later)) \<Rightarrow> Some (Inr (fastForward cop first later)))"

subsection \<open>The walk of \<open>causalReduce\<close>, as the specification words it\<close>

text \<open>
  The specification's condition for stepping back from the current operation to the
  entry's \<open>prev\<close>: the previous entry exists, its tick is at least \<open>minFrom\<close>, it
  equals the current operation's \<open>from\<close> minus one, and the clock turned back to it
  does not have a zero id.
\<close>

definition contiguous_back ::
  "('t \<Rightarrow> int \<Rightarrow> 't) \<Rightarrow> ('t \<Rightarrow> bool) \<Rightarrow> int \<Rightarrow> ('t, 'p) MeldOperation \<Rightarrow>
   (int \<times> string) option \<Rightarrow> bool" where
  "contiguous_back ticked_at is_zero_id minFrom cur prev =
     (case prev of
        None \<Rightarrow> False
      | Some (prevTick, prevTid) \<Rightarrow>
          minFrom \<le> prevTick \<and> prevTick = op_from cur - 1
          \<and> \<not> is_zero_id (ticked_at (op_time cur) prevTick))"

text \<open>
  A chain of operations with their TIDs, earliest first, in which each operation is the
  stored operation of the \<open>prev\<close> link of its successor and the step back was allowed.
\<close>

fun linked ::
  "('t \<Rightarrow> int \<Rightarrow> 't) \<Rightarrow> ('t \<Rightarrow> bool) \<Rightarrow> ('t, 'g, 'p) Journal \<Rightarrow> int \<Rightarrow>
   (string \<times> ('t, 'p) MeldOperation) list \<Rightarrow> bool" where
  "linked ticked_at is_zero_id J minFrom ((prevTid, prevOp) # (tid, cur) # rest) =
     (contiguous_back ticked_at is_zero_id minFrom cur (entryPrev J tid)
      \<and> map_option snd (entryPrev J tid) = Some prevTid
      \<and> operation J prevTid = Some prevOp
      \<and> linked ticked_at is_zero_id J minFrom ((tid, cur) # rest))"
| "linked ticked_at is_zero_id J minFrom chain = True"

text \<open>
  The journal holds the operation of every \<open>prev\<close> link at or after \<open>minFrom\<close>, and
  that operation starts no later than the tick of the link (\<open>from \<le> time.ticks\<close>).
\<close>

definition links_stored :: "('t, 'g, 'p) Journal \<Rightarrow> int \<Rightarrow> bool" where
  "links_stored J minFrom \<longleftrightarrow>
     (\<forall>tid prevTick prevTid.
        entryPrev J tid = Some (prevTick, prevTid) \<and> minFrom \<le> prevTick \<longrightarrow>
        (\<exists>p. operation J prevTid = Some p \<and> op_from p \<le> prevTick))"

text \<open>
  An operator whose committed operation carries the time of the last operation it was
  given, as a fusion does.
\<close>

definition ends_at_last :: "('t, 'p, 's, 'c) CausalOperator \<Rightarrow> bool" where
  "ends_at_last cop \<longleftrightarrow>
     (\<forall>first. op_time (toMeldOperation cop (operator_commit cop (createOperator cop first)))
        = op_time first)
     \<and> (\<forall>s next. op_time (toMeldOperation cop (operator_commit cop (operator_next cop s next)))
        = op_time next)"

text \<open>
  What a result of the walk from \<open>cur\<close>, stored under \<open>tid\<close>, must be: an error, or
  the head and tail of a chain that ends with \<open>cur\<close>, from whose earliest operation no
  further step back is allowed, put before the operations \<open>later\<close>.
\<close>

definition walked ::
  "('t \<Rightarrow> int \<Rightarrow> 't) \<Rightarrow> ('t \<Rightarrow> bool) \<Rightarrow> ('t, 'g, 'p) Journal \<Rightarrow> int \<Rightarrow>
   ('t, 'p) MeldOperation \<Rightarrow> ('t, 'p) MeldOperation list \<Rightarrow> string \<Rightarrow>
   (error + ('t, 'p) MeldOperation \<times> ('t, 'p) MeldOperation list) \<Rightarrow> bool" where
  "walked tk z J minFrom cur later tid r =
     (case r of
        Inl e \<Rightarrow> True
      | Inr (first, hist) \<Rightarrow>
          (\<exists>pre. linked tk z J minFrom (pre @ [(tid, cur)])
             \<and> \<not> contiguous_back tk z minFrom (snd (hd (pre @ [(tid, cur)])))
                   (entryPrev J (fst (hd (pre @ [(tid, cur)]))))
             \<and> first = snd (hd (pre @ [(tid, cur)]))
             \<and> hist = map snd (tl (pre @ [(tid, cur)])) @ later))"


section \<open>Tree clocks\<close>

text \<open>
  Modelled from the spec: the \<open>TreeClock\<close> class (engine/clocks.ts is not among the
  sources). The spec: a rooted binary tree of integer tick counters, exactly one leaf of
  which carries the id of the current process; \<open>ticks\<close> is the sum of the counters
  along the path from the root to the id-leaf; \<open>ticked()\<close> increments the id-leaf;
  \<open>forked()\<close> splits the id-leaf into two sub-leaves; \<open>update(other)\<close> takes the
  component-wise maximum at each shared node and keeps the caller's id;
  \<open>isZeroId\<close> holds when the id-leaf counter is 0; \<open>GENESIS\<close> is the single-node
  clock \<open>(0, id = root)\<close>. \<open>isId\<close> holds of a clock whose root is the id, one that has
  never been forked, as \<open>DatasetClone.initialise\<close> uses it. The datatype keeps the
  id-leaf on a distinguished path, so that there is exactly one by construction. The
  journal calls \<open>ticked(t)\<close> with a tick: the clock turned back to the total \<open>t\<close>,
  here \<open>ticked_to\<close>. Where only one of two merged trees has children below a shared
  node, the merge keeps them.
\<close>

datatype TickTree = TLeaf int | TFork int TickTree TickTree

datatype TreeClock =
    IdLeaf int
  | IdLeft int TreeClock TickTree
  | IdRight int TickTree TreeClock

definition GENESIS :: TreeClock where
  "GENESIS = IdLeaf 0"

fun isId :: "TreeClock \<Rightarrow> bool" where
  "isId (IdLeaf n) = True"
| "isId _ = False"

fun ticks :: "TreeClock \<Rightarrow> int" where
  "ticks (IdLeaf n) = n"
| "ticks (IdLeft n c t) = n + ticks c"
| "ticks (IdRight n t c) = n + ticks c"

fun ticked :: "TreeClock \<Rightarrow> TreeClock" where
  "ticked (IdLeaf n) = IdLeaf (n + 1)"
| "ticked (IdLeft n c t) = IdLeft n (ticked c) t"
| "ticked (IdRight n t c) = IdRight n t (ticked c)"

fun ticked_to :: "TreeClock \<Rightarrow> int \<Rightarrow> TreeClock" where
  "ticked_to (IdLeaf n) k = IdLeaf k"
| "ticked_to (IdLeft n c t) k = IdLeft n (ticked_to c (k - n)) t"
| "ticked_to (IdRight n t c) k = IdRight n t (ticked_to c (k - n))"

fun isZeroId :: "TreeClock \<Rightarrow> bool" where
  "isZeroId (IdLeaf n) = (n = 0)"
| "isZeroId (IdLeft n c t) = isZeroId c"
| "isZeroId (IdRight n t c) = isZeroId c"

fun forked :: "TreeClock \<Rightarrow> TreeClock \<times> TreeClock" where
  "forked (IdLeaf n) = (IdLeft n (IdLeaf 0) (TLeaf 0), IdRight n (TLeaf 0) (IdLeaf 0))"
| "forked (IdLeft n c t) = (case forked c of (l, r) \<Rightarrow> (IdLeft n l t, IdLeft n r t))"
| "forked (IdRight n t c) = (case forked c of (l, r) \<Rightarrow> (IdRight n t l, IdRight n t r))"

text \<open>The clock without its id, and the path of the id-leaf (the process identity).\<close>

fun scrubId :: "TreeClock \<Rightarrow> TickTree" where
  "scrubId (IdLeaf n) = TLeaf n"
| "scrubId (IdLeft n c t) = TFork n (scrubId c) t"
| "scrubId (IdRight n t c) = TFork n t (scrubId c)"

fun id_path :: "TreeClock \<Rightarrow> bool list" where
  "id_path (IdLeaf n) = []"
| "id_path (IdLeft n c t) = False # id_path c"
| "id_path (IdRight n t c) = True # id_path c"

fun tree_max :: "TickTree \<Rightarrow> TickTree \<Rightarrow> TickTree" where
  "tree_max (TLeaf n) (TLeaf m) = TLeaf (max n m)"
| "tree_max (TLeaf n) (TFork m l r) = TFork (max n m) l r"
| "tree_max (TFork n l r) (TLeaf m) = TFork (max n m) l r"
| "tree_max (TFork n l r) (TFork m l' r') = TFork (max n m) (tree_max l l') (tree_max r r')"

fun update :: "TreeClock \<Rightarrow> TickTree \<Rightarrow> TreeClock" where
  "update (IdLeaf n) (TLeaf m) = IdLeaf (max n m)"
| "update (IdLeaf n) (TFork m l r) = IdLeaf (max n m)"
| "update (IdLeft n c t) (TLeaf m) = IdLeft (max n m) c t"
| "update (IdLeft n c t) (TFork m l r) = IdLeft (max n m) (update c l) (tree_max t r)"
| "update (IdRight n t c) (TLeaf m) = IdRight (max n m) t c"
| "update (IdRight n t c) (TFork m l r) = IdRight (max n m) (tree_max t l) (update c r)"


section \<open>Example journals\<close>

text \<open>
  A journal of a clone that was forked at tick 1 and made two transactions since, with
  the entry of its parent's transaction before the fork. Operation contents are lists of
  names.
\<close>

definition ex_time :: "int \<Rightarrow> TreeClock" where
  "ex_time k = IdRight 1 (TLeaf 0) (IdLeaf k)"

definition ex_store :: "(TreeClock, string list, string list) kvp_store" where
  "ex_store = [
     tidEntryKey ''t3'' \<mapsto> EntryV (2, ''t2'') ''t3'',
     tidEntryKey ''t2'' \<mapsto> EntryV (1, ''t1'') ''t2'',
     tidEntryKey ''t1'' \<mapsto> EntryV (0, ''t0'') ''t1'',
     tidOpKey ''t1'' \<mapsto> OperationV \<lparr>op_from = 1, op_time = IdLeaf 1, op_data = [''fred'']\<rparr>,
     tidOpKey ''t2'' \<mapsto> OperationV \<lparr>op_from = 2, op_time = ex_time 1, op_data = [''wilma'']\<rparr>,
     tidOpKey ''t3'' \<mapsto> OperationV \<lparr>op_from = 3, op_time = ex_time 2, op_data = [''barney'']\<rparr>,
     tidOpKey ''t9'' \<mapsto> OperationV \<lparr>op_from = 9, op_time = ex_time 8, op_data = [''betty'']\<rparr>]"

definition ex_journal :: "(TreeClock, string list, string list) Journal" where
  "ex_journal = \<lparr>store = ex_store,
     state_cache = Some \<lparr>js_tailTick = 3, js_time = ex_time 2, js_gwc = [''t3'']\<rparr>\<rparr>"

definition ex_op3 :: "(TreeClock, string list) JournalOperation" where
  "ex_op3 = \<lparr>jo_tid = ''t3'', jo_tick = 3,
     jo_meld = \<lparr>op_from = 3, op_time = ex_time 2, op_data = [''barney'']\<rparr>\<rparr>"

text \<open>A fusing operator: it keeps the first \<open>from\<close>, takes the last time and appends the contents.\<close>

definition fuse_operator ::
  "(TreeClock, string list, (TreeClock, string list) MeldOperation,
    (TreeClock, string list) MeldOperation) CausalOperator" where
  "fuse_operator = \<lparr>
     createOperator = (\<lambda>first. first),
     operator_next = (\<lambda>s next.
        \<lparr>op_from = op_from s, op_time = op_time next, op_data = op_data s @ op_data next\<rparr>),
     operator_commit = (\<lambda>s. s),
     toMeldOperation = (\<lambda>c. c)\<rparr>"


section \<open>Operation buffers (engine/MeldEncoding.ts)\<close>

text \<open>
  \<open>MeldEncoder.bufferFromJson\<close> and \<open>MeldEncoder.jsonFromBuffer\<close>. A buffer is a list
  of bytes. The message-pack and zlib libraries and \<open>JSON.parse\<close> are parameters: the
  encoders are total, the decoders may throw. The decoders are applied to the untyped
  intermediate \<open>result\<close> of the decoding loop, which is a buffer or a decoded value.
\<close>

definition COMPRESS_THRESHOLD_BYTES :: nat where
  "COMPRESS_THRESHOLD_BYTES = 1024"

datatype BufferEncoding = JSON | MSGPACK | GZIP | OtherEncoding string

type_synonym Buffer = "char list"

datatype 'j decoded = Buf Buffer | Val 'j

record 'j codecs =
  msgpack_encode :: "'j \<Rightarrow> Buffer"
  msgpack_decode :: "'j decoded \<Rightarrow> error + 'j"
  gzipSync :: "Buffer \<Rightarrow> Buffer"
  gunzipSync :: "'j decoded \<Rightarrow> error + Buffer"
  json_parse_toString :: "'j decoded \<Rightarrow> error + 'j"

definition bufferFromJson :: "'j codecs \<Rightarrow> 'j \<Rightarrow> Buffer \<times> BufferEncoding list" where
  "bufferFromJson c json =
     (let packed = msgpack_encode c json in
      if length packed > COMPRESS_THRESHOLD_BYTES
      then (gzipSync c packed, [MSGPACK, GZIP])
      else (packed, [MSGPACK]))"

text \<open>
  The loop \<open>for (let i = encoding.length - 1; i >= 0; i--)\<close> of \<open>jsonFromBuffer\<close>,
  over the encodings still to undo, last first.
\<close>

fun undo_encodings :: "'j codecs \<Rightarrow> BufferEncoding list \<Rightarrow> 'j decoded \<Rightarrow> error + 'j decoded" where
  "undo_encodings c [] result = Inr result"
| "undo_encodings c (JSON # rest) result =
     (case json_parse_toString c result of
        Inl e \<Rightarrow> Inl e
      | Inr v \<Rightarrow> undo_encodings c rest (Val v))"
| "undo_encodings c (MSGPACK # rest) result =
     (case msgpack_decode c result of
        Inl e \<Rightarrow> Inl e
      | Inr v \<Rightarrow> undo_encodings c rest (Val v))"
| "undo_encodings c (GZIP # rest) result =
     (case gunzipSync c result of
        Inl e \<Rightarrow> Inl e
      | Inr b \<Rightarrow> undo_encodings c rest (Buf b))"
| "undo_encodings c (OtherEncoding name # rest) result =
     Inl (BadUpdate (''Unrecognised encoding '' @ name))"

definition jsonFromBuffer :: "'j codecs \<Rightarrow> Buffer \<Rightarrow> BufferEncoding list \<Rightarrow> error + 'j decoded" where
  "jsonFromBuffer c encoded encoding = undo_encodings c (rev encoding) (Buf encoded)"

subsection \<open>An instance of the libraries for the examples\<close>

text \<open>
  JSON texts as values, packed as message-pack \<open>str\<close> values (\<open>fixstr\<close>, \<open>str 8\<close> or
  \<open>str 16\<close> by length), and a two-byte framing standing for gzip.
\<close>

definition ex_pack :: "string \<Rightarrow> Buffer" where
  "ex_pack s =
     (let n = length s in
      if n < 32 then char_of (160 + n) # s
      else if n < 256 then char_of (217::nat) # char_of n # s
      else char_of (218::nat) # char_of (n div 256) # char_of (n mod 256) # s)"

definition ex_unpack :: "string decoded \<Rightarrow> error + string" where
  "ex_unpack r =
     (case r of
        Val v \<Rightarrow> Inl (TypeError ''not a buffer'')
      | Buf [] \<Rightarrow> Inl DecodeFailed
      | Buf (h # rest) \<Rightarrow>
          let t = (of_char h :: nat) in
          if 160 \<le> t \<and> t < 192 then
            (if length rest = t - 160 then Inr rest else Inl DecodeFailed)
          else if t = 217 then
            (case rest of
               l # s \<Rightarrow> if length s = of_char l then Inr s else Inl DecodeFailed
             | _ \<Rightarrow> Inl DecodeFailed)
          else if t = 218 then
            (case rest of
               hi # lo # s \<Rightarrow>
                 if length s = of_char hi * 256 + of_char lo then Inr s else Inl DecodeFailed
             | _ \<Rightarrow> Inl DecodeFailed)
          else Inl DecodeFailed)"

definition ex_gzip :: "Buffer \<Rightarrow> Buffer" where
  "ex_gzip b = char_of (31::nat) # char_of (139::nat) # b"

definition ex_gunzip :: "string decoded \<Rightarrow> error + Buffer" where
  "ex_gunzip r =
     (case r of
        Buf (m1 # m2 # b) \<Rightarrow>
          if (of_char m1 :: nat) = 31 \<and> (of_char m2 :: nat) = 139 then Inr b else Inl DecodeFailed
      | _ \<Rightarrow> Inl DecodeFailed)"

definition ex_codecs :: "string codecs" where
  "ex_codecs = \<lparr>
     msgpack_encode = ex_pack,
     msgpack_decode = ex_unpack,
     gzipSync = ex_gzip,
     gunzipSync = ex_gunzip,
     json_parse_toString = (\<lambda>r. case r of Buf b \<Rightarrow> Inr b | Val v \<Rightarrow> Inr v)\<rparr>"


section \<open>Reification of triples with their TIDs (engine/MeldEncoding.ts)\<close>

text \<open>
  RDF/JS terms, with their \<open>termType\<close> as the constructor and their \<open>value\<close>; a
  literal also has a language and a datatype IRI. The data factory's \<open>namedNode\<close>,
  \<open>blankNode\<close>, \<open>literal\<close> and \<open>quad\<close> build these values.
\<close>

datatype Term =
    NamedNode string
  | BlankNode string
  | Literal string string string
  | Variable string
  | DefaultGraph

fun term_value :: "Term \<Rightarrow> string" where
  "term_value (NamedNode v) = v"
| "term_value (BlankNode v) = v"
| "term_value (Literal v lang dt) = v"
| "term_value (Variable v) = v"
| "term_value DefaultGraph = ''''"

fun isNamedNode :: "Term \<Rightarrow> bool" where
  "isNamedNode (NamedNode v) = True"
| "isNamedNode t = False"

definition rdf_literal :: "string \<Rightarrow> Term" where
  "rdf_literal v = Literal v '''' ''http://www.w3.org/2001/XMLSchema#string''"

record Triple =
  subject :: Term
  predicate :: Term
  object :: Term

text \<open>A \<open>RefTriple\<close> is a triple with a blank node identifier \<open>@id\<close>.\<close>

record RefTriple = Triple +
  at_id :: string

definition rdf_quad :: "Term \<Rightarrow> Term \<Rightarrow> Term \<Rightarrow> Triple" where
  "rdf_quad s p ob = \<lparr>subject = s, predicate = p, object = ob\<rparr>"

definition RDF_subject :: string where
  "RDF_subject = ''http://www.w3.org/1999/02/22-rdf-syntax-ns#subject''"

definition RDF_predicate :: string where
  "RDF_predicate = ''http://www.w3.org/1999/02/22-rdf-syntax-ns#predicate''"

definition RDF_object :: string where
  "RDF_object = ''http://www.w3.org/1999/02/22-rdf-syntax-ns#object''"

definition M_LD_tid :: string where
  "M_LD_tid = ''http://m-ld.org/#tid''"

definition startsWith :: "string \<Rightarrow> string \<Rightarrow> bool" where
  "startsWith s pre = (take (length pre) s = pre)"

text \<open>The quads that the callback of \<open>reifyTriplesTids\<close> returns for one triple.\<close>

definition reification :: "RefTriple \<Rightarrow> string list \<Rightarrow> Triple list" where
  "reification triple tids =
     (let rid = BlankNode (drop 2 (at_id triple)) in
      [rdf_quad rid (NamedNode RDF_subject) (subject triple),
       rdf_quad rid (NamedNode RDF_predicate) (predicate triple),
       rdf_quad rid (NamedNode RDF_object) (object triple)]
      @ map (\<lambda>tid. rdf_quad rid (NamedNode M_LD_tid) (rdf_literal tid)) tids)"

text \<open>\<open>triplesTids.map(...)\<close>: the callback throws at the first triple that is not identified by a blank node.\<close>

fun reify_each :: "(RefTriple \<times> string list) list \<Rightarrow> error + Triple list list" where
  "reify_each [] = Inr []"
| "reify_each ((triple, tids) # rest) =
     (if \<not> startsWith (at_id triple) ''_:''
      then Inl (TypeError (''Triple '' @ at_id triple @ '' is not a blank node''))
      else (case reify_each rest of
              Inl e \<Rightarrow> Inl e
            | Inr qss \<Rightarrow> Inr (reification triple tids # qss)))"

definition reifyTriplesTids :: "(RefTriple \<times> string list) list \<Rightarrow> error + Triple list" where
  "reifyTriplesTids triplesTids =
     (case reify_each triplesTids of
        Inl e \<Rightarrow> Inl e
      | Inr qss \<Rightarrow> Inr (concat qss))"

text \<open>
  \<open>unreifyTriplesTids\<close> builds its triples field by field, starting from
  \<open>{ '@id': `_:${rid}` }\<close>: a field is absent until a reification sets it.
\<close>

record PartialRefTriple =
  p_id :: string
  p_subject :: "Term option"
  p_predicate :: "Term option"
  p_object :: "Term option"

text \<open>
  The accumulator \<open>rids\<close> is a plain object, created as \<open>{}\<close>: its own properties are
  kept here in creation order. Reading \<open>rids[rid]\<close> finds an own property, else a
  property inherited from \<open>Object.prototype\<close>, else \<open>undefined\<close>. An inherited property
  is a function (or, for \<open>__proto__\<close>, the prototype object): it is truthy and not
  iterable, so destructuring it as \<open>[triple, tids]\<close> throws a \<open>TypeError\<close>.
\<close>

type_synonym rids = "(string \<times> (PartialRefTriple \<times> string list)) list"

definition OBJECT_PROTOTYPE_KEYS :: "string list" where
  "OBJECT_PROTOTYPE_KEYS =
     [''constructor'', ''hasOwnProperty'', ''isPrototypeOf'', ''propertyIsEnumerable'',
      ''toLocaleString'', ''toString'', ''valueOf'', ''__proto__'',
      ''__defineGetter__'', ''__defineSetter__'', ''__lookupGetter__'', ''__lookupSetter__'']"

definition rids_get :: "rids \<Rightarrow> string \<Rightarrow> error + (PartialRefTriple \<times> string list)" where
  "rids_get rids rid =
     (case map_of rids rid of
        Some entry \<Rightarrow> Inr entry
      | None \<Rightarrow>
          if rid \<in> set OBJECT_PROTOTYPE_KEYS
          then Inl (TypeError ''rids[rid] is not iterable'')
          else Inr (\<lparr>p_id = ''_:'' @ rid, p_subject = None, p_predicate = None, p_object = None\<rparr>, []))"

text \<open>\<open>rids[rid] = [triple, tids]\<close>: an existing own property keeps its place, a new one comes last.\<close>

fun rids_set :: "rids \<Rightarrow> string \<Rightarrow> PartialRefTriple \<times> string list \<Rightarrow> rids" where
  "rids_set [] rid entry = [(rid, entry)]"
| "rids_set ((k, v) # rest) rid entry =
     (if k = rid then (k, entry) # rest else (k, v) # rids_set rest rid entry)"

text \<open>The body of the reducer: the \<open>switch\<close> on the predicate of the reification.\<close>

definition unreify_one :: "rids \<Rightarrow> Triple \<Rightarrow> error + rids" where
  "unreify_one rids reif =
     (let rid = term_value (subject reif) in
      case rids_get rids rid of
        Inl e \<Rightarrow> Inl e
      | Inr (triple, tids) \<Rightarrow>
          let pv = term_value (predicate reif) in
          if pv = RDF_subject then
            Inr (rids_set rids rid
              (if isNamedNode (object reif) then triple\<lparr>p_subject := Some (object reif)\<rparr> else triple, tids))
          else if pv = RDF_predicate then
            Inr (rids_set rids rid
              (if isNamedNode (object reif) then triple\<lparr>p_predicate := Some (object reif)\<rparr> else triple, tids))
          else if pv = RDF_object then
            Inr (rids_set rids rid (triple\<lparr>p_object := Some (object reif)\<rparr>, tids))
          else if pv = M_LD_tid then
            Inr (rids_set rids rid (triple, tids @ [term_value (object reif)]))
          else Inr (rids_set rids rid (triple, tids)))"

fun unreify_reduce :: "rids \<Rightarrow> Triple list \<Rightarrow> error + rids" where
  "unreify_reduce rids [] = Inr rids"
| "unreify_reduce rids (reif # rest) =
     (case unreify_one rids reif of
        Inl e \<Rightarrow> Inl e
      | Inr rids' \<Rightarrow> unreify_reduce rids' rest)"

text \<open>
  \<open>Object.values\<close> lists the own properties whose keys are array indices (canonical
  decimal numerals below \<open>2^32 - 1\<close>) first, in ascending numeric order, and then the
  others in creation order.
\<close>

definition is_digit :: "char \<Rightarrow> bool" where
  "is_digit c = (CHR ''0'' \<le> c \<and> c \<le> CHR ''9'')"

definition decimal_value :: "string \<Rightarrow> nat" where
  "decimal_value s = foldl (\<lambda>n c. 10 * n + (of_char c - 48)) 0 s"

definition array_index :: "string \<Rightarrow> nat option" where
  "array_index s =
     (if s \<noteq> [] \<and> list_all is_digit s \<and> (s = ''0'' \<or> hd s \<noteq> CHR ''0'')
         \<and> decimal_value s < 4294967295
      then Some (decimal_value s) else None)"

definition Object_values :: "(string \<times> 'v) list \<Rightarrow> 'v list" where
  "Object_values obj =
     map snd (sort_key (\<lambda>(k, v). case array_index k of Some n \<Rightarrow> n | None \<Rightarrow> 0)
                (filter (\<lambda>(k, v). array_index k \<noteq> None) obj))
     @ map snd (filter (\<lambda>(k, v). array_index k = None) obj)"

definition unreifyTriplesTids :: "Triple list \<Rightarrow> error + (PartialRefTriple \<times> string list) list" where
  "unreifyTriplesTids reifications =
     (case unreify_reduce [] reifications of
        Inl e \<Rightarrow> Inl e
      | Inr rids \<Rightarrow> Inr (Object_values rids))"

text \<open>A complete triple as \<open>unreifyTriplesTids\<close> would build it.\<close>

definition as_partial :: "RefTriple \<Rightarrow> PartialRefTriple" where
  "as_partial t = \<lparr>p_id = at_id t, p_subject = Some (subject t),
     p_predicate = Some (predicate t), p_object = Some (object t)\<rparr>"

definition ex_fred :: RefTriple where
  "ex_fred = \<lparr>subject = NamedNode ''http://test.m-ld.org/fred'',
     predicate = NamedNode ''http://test.m-ld.org/#name'',
     object = rdf_literal ''Fred'', at_id = ''_:b1''\<rparr>"

definition ex_wilma :: RefTriple where
  "ex_wilma = \<lparr>subject = NamedNode ''http://test.m-ld.org/wilma'',
     predicate = NamedNode ''http://test.m-ld.org/#name'',
     object = rdf_literal ''Wilma'', at_id = ''_:0''\<rparr>"

text \<open>The own property that a reified triple ends as, under its blank node label.\<close>

definition rid_entry :: "RefTriple \<times> string list \<Rightarrow> string \<times> (PartialRefTriple \<times> string list)" where
  "rid_entry x = (drop 2 (at_id (fst x)), (as_partial (fst x), snd x))"

text \<open>
  The triples of the round trip: identified by a blank node whose label is not the name
  of an inherited property, with an IRI as subject and as predicate.
\<close>

definition reifiable :: "RefTriple \<Rightarrow> bool" where
  "reifiable t \<longleftrightarrow> startsWith (at_id t) ''_:'' \<and> isNamedNode (subject t) \<and> isNamedNode (predicate t)
     \<and> drop 2 (at_id t) \<notin> set OBJECT_PROTOTYPE_KEYS"

definition ex_constructor :: RefTriple where
  "ex_constructor = ex_fred\<lparr>at_id := ''_:constructor''\<rparr>"


section \<open>Initialisation of a clone (dataset/DatasetClone.ts)\<close>

text \<open>
  \<open>DatasetClone.initialise\<close> and \<open>DatasetClone.requestSnapshot\<close>, as the sequence of
  what they do to their collaborators. The remotes answer requests with a value or an
  error (a rejected promise); a stream of messages is the list of its messages, passed on
  in order when it is subscribed to. The message service and the dataset are not among
  the sources: their calls are recorded as events. The ordering buffer is empty while
  the clone initialises, so delivering the snapshot releases no buffered message.
\<close>

record ('m, 'h) Snapshot =
  snap_time :: TreeClock
  snap_lastHash :: 'h
  snap_updates :: "'m list"

record ('m, 'h) MeldRemotes =
  remotes_newClock :: "error + TreeClock"
  remotes_revupFrom :: "'h \<Rightarrow> error + 'm list option"
  remotes_snapshot :: "error + ('m, 'h) Snapshot"

text \<open>What the dataset answers during initialisation.\<close>

record ('e, 'h) StoredDataset =
  loadClock :: "TreeClock option"
  lastHash :: 'h
  unsentLocalOperations :: "'e list"

datatype ('m, 'e, 'h) event =
    ClockRequested
  | ClockSaved TreeClock bool
  | Published 'e
  | UpdatesSubscribed
  | RevupRequested 'h
  | Received 'm
  | SnapshotRequested
  | SnapshotApplied "('m, 'h) Snapshot"
  | Connected

text \<open>
  \<open>requestSnapshot\<close>: the snapshot is requested and delivered through the message
  service, whose \<open>accept\<close> callback applies it to the dataset; then the snapshot's
  updates are subscribed to, and reach the update receiver, which hands each to
  \<open>messageService.receive\<close>.
\<close>

definition requestSnapshot ::
  "('m, 'h) MeldRemotes \<Rightarrow> error + ('m, 'e, 'h) event list" where
  "requestSnapshot remotes =
     (case remotes_snapshot remotes of
        Inl e \<Rightarrow> Inl e
      | Inr snapshot \<Rightarrow>
          Inr ([SnapshotRequested, SnapshotApplied snapshot]
               @ map Received (snap_updates snapshot)))"

text \<open>
  \<open>initialise\<close>: the events so far and, when a request fails, the error that ends it.
\<close>

definition initialise ::
  "('e, 'h) StoredDataset \<Rightarrow> ('m, 'h) MeldRemotes \<Rightarrow> ('m, 'e, 'h) event list \<times> error option" where
  "initialise dataset remotes =
     (let established =
        (case loadClock dataset of
           Some time \<Rightarrow> Inr (False, time, [])
         | None \<Rightarrow>
             (case remotes_newClock remotes of
                Inl e \<Rightarrow> Inl ([ClockRequested], e)
              | Inr time \<Rightarrow> Inr (True, time, [ClockRequested, ClockSaved time True])))
      in case established of
        Inl (events, e) \<Rightarrow> (events, Some e)
      | Inr (newClone, time, events0) \<Rightarrow>
          let events1 = events0 @ map Published (unsentLocalOperations dataset) in
          if isId time then (events1 @ [UpdatesSubscribed, Connected], None)
          else
            let events2 = events1 @ [UpdatesSubscribed] in
            if newClone then
              (case requestSnapshot remotes of
                 Inl e \<Rightarrow> (events2, Some e)
               | Inr snapshotEvents \<Rightarrow> (events2 @ snapshotEvents @ [Connected], None))
            else
              (case remotes_revupFrom remotes (lastHash dataset) of
                 Inl e \<Rightarrow> (events2 @ [RevupRequested (lastHash dataset)], Some e)
               | Inr (Some revup) \<Rightarrow>
                   (events2 @ [RevupRequested (lastHash dataset)] @ map Received revup
                      @ [Connected], None)
               | Inr None \<Rightarrow>
                   (case requestSnapshot remotes of
                      Inl e \<Rightarrow> (events2 @ [RevupRequested (lastHash dataset)], Some e)
                    | Inr snapshotEvents \<Rightarrow>
                        (events2 @ [RevupRequested (lastHash dataset)] @ snapshotEvents
                           @ [Connected], None))))"

text \<open>A stored, forked clock; remotes that can rev the clone up, and remotes that cannot.\<close>

definition ex_dataset :: "(string, string) StoredDataset" where
  "ex_dataset = \<lparr>loadClock = Some (ex_time 2), lastHash = ''h2'', unsentLocalOperations = [''e2'']\<rparr>"

definition ex_snapshot :: "(string, string) Snapshot" where
  "ex_snapshot = \<lparr>snap_time = IdLeft 1 (IdLeaf 4) (TLeaf 2), snap_lastHash = ''h4'',
     snap_updates = [''m5'']\<rparr>"

definition ex_remotes_revup :: "(string, string) MeldRemotes" where
  "ex_remotes_revup = \<lparr>remotes_newClock = Inl DecodeFailed,
     remotes_revupFrom = (\<lambda>h. Inr (Some [''m3'', ''m4''])),
     remotes_snapshot = Inr ex_snapshot\<rparr>"

definition ex_remotes_no_revup :: "(string, string) MeldRemotes" where
  "ex_remotes_no_revup = \<lparr>remotes_newClock = Inl DecodeFailed,
     remotes_revupFrom = (\<lambda>h. Inr None),
     remotes_snapshot = Inr ex_snapshot\<rparr>"


section \<open>The SU-Set dataset\<close>

text \<open>
  Modelled from the spec: the \<open>SuSetDataset\<close> class
  (engine/dataset/SuSetDataset.ts is not among the sources; only its tests are), with
  the global wall clock and the hash of a clock that it uses. No constraint is
  configured. The spec:
  \<^item> each asserted triple is stored together with the set of TIDs that asserted it, and
    is present iff that set is not empty;
  \<^item> the GWC maps a process identity (a path in the tree) to its last-seen tick and is
    produced by update-merging all operation times;
  \<^item> an operation is \<open>(version, from, time, deletes, inserts)\<close>; its TID is the hash
    of its time; when \<open>from < time.ticks\<close> it is a fusion, and its deletes and inserts
    are reified, each triple carrying its TIDs.
  The hash of a clock is a parameter \<open>hash\<close>. The inserts of an operation are kept
  reified throughout: those of a single transaction carry its one TID. An update is
  modelled by whether it is emitted.
\<close>

type_synonym graph = "Triple \<Rightarrow> string set"

definition present :: "graph \<Rightarrow> Triple \<Rightarrow> bool" where
  "present g t \<longleftrightarrow> g t \<noteq> {}"

fun get_ticks :: "TickTree \<Rightarrow> bool list \<Rightarrow> int" where
  "get_ticks (TLeaf n) path = n"
| "get_ticks (TFork n l r) [] = n"
| "get_ticks (TFork n l r) (b # path) = n + get_ticks (if b then r else l) path"

record su_operation =
  o_version :: int
  o_from :: int
  o_time :: TreeClock
  o_deletes :: "(Triple \<times> string list) list"
  o_inserts :: "(Triple \<times> string list) list"

text \<open>A journal entry: its tick, the previous tick of the operation's process and the TID.\<close>

record su_entry =
  e_tick :: int
  e_prev :: int
  e_tid :: string

record SuSet =
  su_graph :: graph
  su_clock :: TreeClock
  su_gwc :: TickTree
  su_entries :: "su_entry list"

text \<open>
  What a transaction gives back: the operation message to publish, if any, and whether
  an update is emitted to the subscribers.
\<close>

record su_result =
  r_message :: "su_operation option"
  r_update :: bool

definition no_result :: su_result where
  "no_result = \<lparr>r_message = None, r_update = False\<rparr>"

text \<open>Withdrawing TIDs from their triples, and adding TIDs to their triples.\<close>

fun withdraw :: "graph \<Rightarrow> (Triple \<times> string list) list \<Rightarrow> graph" where
  "withdraw g [] = g"
| "withdraw g ((t, tids) # rest) = withdraw (g(t := g t - set tids)) rest"

fun assert_tids :: "graph \<Rightarrow> (Triple \<times> string list) list \<Rightarrow> graph" where
  "assert_tids g [] = g"
| "assert_tids g ((t, tids) # rest) = assert_tids (g(t := g t \<union> set tids)) rest"

subsection \<open>Write: a local transaction\<close>

text \<open>
  The patch is given resolved to triples. Step 1 resolves the deletes against the graph
  to triples with their TIDs; a delete of an absent triple resolves to nothing. TIDs are
  listed through \<open>tids_list\<close>, which enumerates a TID set.
\<close>

record patch =
  patch_delete :: "Triple list"
  patch_insert :: "Triple list"

definition resolve_deletes ::
  "(string set \<Rightarrow> string list) \<Rightarrow> graph \<Rightarrow> Triple list \<Rightarrow> (Triple \<times> string list) list" where
  "resolve_deletes tids_list g ts =
     map (\<lambda>t. (t, tids_list (g t))) (filter (\<lambda>t. g t \<noteq> {}) ts)"

text \<open>
  Steps 2 and 6: the clock is ticked to the time \<open>t\<close> of the transaction and the
  operation is \<open>(2, t.ticks, t, deletes, inserts)\<close>. An empty operation is a no-op: then
  there is no operation.
\<close>

definition local_operation ::
  "(TreeClock \<Rightarrow> string) \<Rightarrow> (string set \<Rightarrow> string list) \<Rightarrow> SuSet \<Rightarrow> patch \<Rightarrow> su_operation option" where
  "local_operation hash tids_list S p =
     (let deletes = resolve_deletes tids_list (su_graph S) (patch_delete p);
          t = ticked (su_clock S)
      in if deletes = [] \<and> patch_insert p = [] then None
         else Some \<lparr>o_version = 2, o_from = ticks t, o_time = t, o_deletes = deletes,
                    o_inserts = map (\<lambda>x. (x, [hash t])) (patch_insert p)\<rparr>)"

text \<open>
  The transaction: steps 3 and 4 change the TID sets, step 7 commits the entry and
  emits. \<open>op_size\<close> is the byte length of the encoded operation and
  \<open>maxOperationSize\<close> the configured limit, if any: an operation over the limit aborts
  the transaction with \<open>OperationSizeExceeded\<close> and leaves the store unchanged. The
  result is the store after the transaction and its outcome.
\<close>

definition su_transact ::
  "(TreeClock \<Rightarrow> string) \<Rightarrow> (string set \<Rightarrow> string list) \<Rightarrow> (su_operation \<Rightarrow> nat) \<Rightarrow> nat option \<Rightarrow>
   SuSet \<Rightarrow> patch \<Rightarrow> SuSet \<times> (error + su_result)" where
  "su_transact hash tids_list op_size maxOperationSize S p =
     (case local_operation hash tids_list S p of
        None \<Rightarrow> (S, Inr no_result)
      | Some op \<Rightarrow>
          if (case maxOperationSize of None \<Rightarrow> False | Some limit \<Rightarrow> op_size op > limit)
          then (S, Inl OperationSizeExceeded)
          else
            (S\<lparr>su_graph := assert_tids (withdraw (su_graph S) (o_deletes op)) (o_inserts op),
               su_clock := o_time op,
               su_gwc := tree_max (su_gwc S) (scrubId (o_time op)),
               su_entries := su_entries S @
                 [\<lparr>e_tick = ticks (o_time op),
                   e_prev = get_ticks (su_gwc S) (id_path (o_time op)),
                   e_tid = hash (o_time op)\<rparr>]\<rparr>,
             Inr \<lparr>r_message = Some op, r_update = True\<rparr>))"

subsection \<open>Apply: a remote operation\<close>

text \<open>
  The TIDs of an operation that the GWC already reflects: those of the ticks of its
  range up to the last-seen tick of its process.
\<close>

definition seen_tids :: "(TreeClock \<Rightarrow> string) \<Rightarrow> TickTree \<Rightarrow> su_operation \<Rightarrow> string list" where
  "seen_tids hash gwc op =
     map (\<lambda>k. hash (ticked_to (o_time op) k))
       [o_from op .. min (get_ticks gwc (id_path (o_time op))) (ticks (o_time op))]"

text \<open>
  The stale cut: the TIDs already reflected are withdrawn from the reified inserts, and
  a triple left without a TID is dropped.
\<close>

definition cut_inserts :: "string list \<Rightarrow> (Triple \<times> string list) list \<Rightarrow> (Triple \<times> string list) list" where
  "cut_inserts seen inserts =
     filter (\<lambda>(t, tids). tids \<noteq> [])
       (map (\<lambda>(t, tids). (t, filter (\<lambda>tid. tid \<notin> set seen) tids)) inserts)"

text \<open>All the TIDs with which a reified list carries a triple.\<close>

definition carried :: "(Triple \<times> string list) list \<Rightarrow> Triple \<Rightarrow> string set" where
  "carried reified t = \<Union> (set (map (\<lambda>(u, tids). if u = t then set tids else {}) reified))"

text \<open>
  The tests of the class (\<open>cuts stale fusion from incoming fusion\<close>) require one more
  rule of the cut, which the spec does not state: a triple inserted here by an
  operation of the range that the fusion no longer carries is removed, because the
  fusion omits it. So the reflected TIDs of the fusion under which it does not carry a
  triple are withdrawn from that triple.
\<close>

definition withdraw_omitted ::
  "graph \<Rightarrow> string list \<Rightarrow> (Triple \<times> string list) list \<Rightarrow> graph" where
  "withdraw_omitted g seen inserts = (\<lambda>t. g t - (set seen - carried inserts t))"

text \<open>
  The apply: an operation with no deletes and no inserts only joins the local time; an
  operation all of whose ticks the GWC reflects is rejected as a duplicate; otherwise
  the deletes are withdrawn, the stale cut is made and the inserts that remain are
  added, the local clock is joined with the operation's time and ticked, the GWC merged,
  the entry committed and the update emitted. With no constraint there is no further
  operation to publish.
\<close>

definition su_apply :: "(TreeClock \<Rightarrow> string) \<Rightarrow> SuSet \<Rightarrow> su_operation \<Rightarrow> SuSet \<times> su_result" where
  "su_apply hash S op =
     (if o_deletes op = [] \<and> o_inserts op = []
      then (S\<lparr>su_clock := update (su_clock S) (scrubId (o_time op))\<rparr>, no_result)
      else if ticks (o_time op) \<le> get_ticks (su_gwc S) (id_path (o_time op))
      then (S, no_result)
      else
        let seen = seen_tids hash (su_gwc S) op;
            inserts = cut_inserts seen (o_inserts op)
        in
        (S\<lparr>su_graph :=
             assert_tids
               (withdraw_omitted (withdraw (su_graph S) (o_deletes op)) seen (o_inserts op))
               inserts,
           su_clock := ticked (update (su_clock S) (scrubId (o_time op))),
           su_gwc := tree_max (su_gwc S) (scrubId (o_time op)),
           su_entries := su_entries S @
             [\<lparr>e_tick = ticks (ticked (update (su_clock S) (scrubId (o_time op)))),
               e_prev = get_ticks (su_gwc S) (id_path (o_time op)),
               e_tid = hash (o_time op)\<rparr>]\<rparr>,
         \<lparr>r_message = None, r_update = True\<rparr>))"

subsection \<open>The scenario of the stale cut\<close>

text \<open>
  The local clone is the left fork of genesis and has inserted \<open>fred\<close>; the remote is
  the right fork and has forked a third clone. The hash of a clock is rendered as the
  path of its id followed by its ticks.
\<close>

definition ex_hash :: "TreeClock \<Rightarrow> string" where
  "ex_hash c = map (\<lambda>b. if b then CHR ''R'' else CHR ''L'') (id_path c)
                @ '':'' @ toString_radix 10 (nat (ticks c))"

definition name_triple :: "string \<Rightarrow> string \<Rightarrow> Triple" where
  "name_triple s name = \<lparr>subject = NamedNode (''http://test.m-ld.org/'' @ s),
     predicate = NamedNode ''http://test.m-ld.org/#name'', object = rdf_literal name\<rparr>"

definition remote_time :: "int \<Rightarrow> TreeClock" where
  "remote_time k = IdRight 0 (TLeaf 0) (IdLeft 0 (IdLeaf k) (TLeaf 0))"

definition third_time :: "int \<Rightarrow> TreeClock" where
  "third_time k = IdRight 0 (TLeaf 0) (IdRight 0 (TLeaf 0) (IdLeaf k))"

definition ex_local :: SuSet where
  "ex_local = \<lparr>
     su_graph = (\<lambda>t. {})(name_triple ''fred'' ''Fred'' := {''L:2''}),
     su_clock = IdLeft 0 (IdLeaf 2) (TLeaf 0),
     su_gwc = TFork 0 (TLeaf 2) (TLeaf 0),
     su_entries = [\<lparr>e_tick = 2, e_prev = 1, e_tid = ''L:2''\<rparr>]\<rparr>"

definition op_one :: su_operation where
  "op_one = \<lparr>o_version = 2, o_from = 1, o_time = remote_time 1, o_deletes = [],
     o_inserts = [(name_triple ''wilma'' ''Wilma'', [''RL:1''])]\<rparr>"

definition op_third :: su_operation where
  "op_third = \<lparr>o_version = 2, o_from = 1, o_time = third_time 1,
     o_deletes = [(name_triple ''wilma'' ''Wilma'', [''RL:1''])], o_inserts = []\<rparr>"

definition op_fusion :: su_operation where
  "op_fusion = \<lparr>o_version = 2, o_from = 1, o_time = remote_time 2, o_deletes = [],
     o_inserts = [(name_triple ''wilma'' ''Wilma'', [''RL:1'']),
                  (name_triple ''barney'' ''Barney'', [''RL:2''])]\<rparr>"

definition op_noop :: su_operation where
  "op_noop = \<lparr>o_version = 2, o_from = 1, o_time = remote_time 1, o_deletes = [], o_inserts = []\<rparr>"

definition op_betty :: su_operation where
  "op_betty = \<lparr>o_version = 2, o_from = 2, o_time = remote_time 2, o_deletes = [],
     o_inserts = [(name_triple ''betty'' ''Betty'', [''RL:2''])]\<rparr>"

definition op_fusion3 :: su_operation where
  "op_fusion3 = \<lparr>o_version = 2, o_from = 1, o_time = remote_time 3, o_deletes = [],
     o_inserts = [(name_triple ''wilma'' ''Wilma'', [''RL:1'']),
                  (name_triple ''barney'' ''Barney'', [''RL:3''])]\<rparr>"

definition ex_after_betty :: SuSet where
  "ex_after_betty = fst (su_apply ex_hash (fst (su_apply ex_hash ex_local op_one)) op_betty)"

definition ex_after_third :: SuSet where
  "ex_after_third = fst (su_apply ex_hash (fst (su_apply ex_hash ex_local op_one)) op_third)"

text \<open>
  The scenario of the size limit: a genesis store, a limit of one byte, and the size of
  an operation counted as the characters of the terms of its triples.
\<close>

definition ex_genesis :: SuSet where
  "ex_genesis = \<lparr>su_graph = (\<lambda>t. {}), su_clock = GENESIS, su_gwc = TLeaf 0, su_entries = []\<rparr>"

definition ex_op_size :: "su_operation \<Rightarrow> nat" where
  "ex_op_size op =
     sum_list (map (\<lambda>(t, tids). length (term_value (subject t)) + length (term_value (predicate t))
                       + length (term_value (object t)))
                (o_deletes op @ o_inserts op))"

definition ex_insert_fred :: patch where
  "ex_insert_fred = \<lparr>patch_delete = [], patch_insert = [name_triple ''fred'' ''Fred'']\<rparr>"


section \<open>Properties of the journal keys\<close>

lemma digit_char_mono: "a < b \<Longrightarrow> b < 36 \<Longrightarrow> digit_char a < digit_char b"
  unfolding digit_char_def less_char_def
  by (auto simp: of_char_of)

lemma digit_char_zero: "digit_char 0 = CHR ''0''"
  by code_simp

lemma digit_char_one: "digit_char (Suc 0) = CHR ''1''"
  by code_simp

lemma digit_char_two: "digit_char 2 = CHR ''2''"
  by code_simp

lemma length_fixed_width: "length (fixed_width k n) = k"
  by (induction k arbitrary: n) auto

lemma snoc_less_iff:
  "length xs = length ys \<Longrightarrow> (xs @ [a] < ys @ [b]) \<longleftrightarrow> (xs < ys \<or> xs = ys \<and> a < b)"
  by (induction xs ys rule: list_induct2) auto

lemma fixed_width_mono:
  "a < b \<Longrightarrow> b < 36 ^ k \<Longrightarrow> fixed_width k a < fixed_width k b"
proof (induction k arbitrary: a b)
  case 0
  then show ?case by simp
next
  case (Suc k)
  have le: "a div 36 \<le> b div 36"
    using Suc.prems(1) by (simp add: div_le_mono)
  have bd: "b div 36 < 36 ^ k"
    using Suc.prems(2) by (simp add: less_mult_imp_div_less mult.commute)
  show ?case
  proof (cases "a div 36 < b div 36")
    case True
    then have "fixed_width k (a div 36) < fixed_width k (b div 36)"
      using Suc.IH bd by blast
    then show ?thesis by (simp add: snoc_less_iff length_fixed_width)
  next
    case False
    then have eq: "a div 36 = b div 36" using le by simp
    have "a mod 36 < b mod 36"
      using Suc.prems(1) eq by (metis div_mult_mod_eq nat_add_left_cancel_less)
    then have "digit_char (a mod 36) < digit_char (b mod 36)"
      by (rule digit_char_mono) simp
    then show ?thesis using eq by (simp add: snoc_less_iff length_fixed_width)
  qed
qed

lemma fixed_width_zero: "fixed_width k 0 = replicate k (CHR ''0'')"
  by (induction k) (auto simp: digit_char_zero replicate_append_same)

lemma pad_toString:
  "n < 36 ^ k \<Longrightarrow> 0 < k \<Longrightarrow>
   \<exists>z. z + length (toString_radix 36 n) = k \<and>
       replicate z (CHR ''0'') @ toString_radix 36 n = fixed_width k n"
proof (induction k arbitrary: n)
  case 0
  then show ?case by simp
next
  case (Suc k)
  show ?case
  proof (cases "n < 36")
    case True
    have "toString_radix 36 n = [digit_char n]"
      using True by (simp add: toString_radix.simps)
    moreover have "fixed_width (Suc k) n = replicate k (CHR ''0'') @ [digit_char n]"
      using True by (simp add: fixed_width_zero)
    ultimately show ?thesis by (intro exI[of _ k]) simp
  next
    case False
    then have k0: "0 < k" using Suc.prems(1) by (cases k) auto
    have bd: "n div 36 < 36 ^ k"
      using Suc.prems(1) by (simp add: less_mult_imp_div_less mult.commute)
    from Suc.IH[OF bd k0] obtain z where
      z: "z + length (toString_radix 36 (n div 36)) = k"
         "replicate z (CHR ''0'') @ toString_radix 36 (n div 36) = fixed_width k (n div 36)"
      by blast
    have ts: "toString_radix 36 n = toString_radix 36 (n div 36) @ [digit_char (n mod 36)]"
      using False by (subst toString_radix.simps) simp
    show ?thesis using z by (intro exI[of _ z]) (simp add: ts)
  qed
qed

lemma tickKey_padded:
  assumes n: "n < 36 ^ 8"
  shows "\<exists>z. z + length (toString_radix 36 n) = 8
     \<and> tickKey n = ''_qs:tick:'' @ replicate z (CHR ''0'') @ toString_radix 36 n
     \<and> tickKey n = ''_qs:tick:'' @ fixed_width 8 n"
proof -
  from pad_toString[OF n] obtain z where
    z: "z + length (toString_radix 36 n) = 8"
       "replicate z (CHR ''0'') @ toString_radix 36 n = fixed_width 8 n"
    by auto
  have "replicate 8 (CHR ''0'') = replicate (8 - z) (CHR ''0'') @ replicate z (CHR ''0'')"
    using z(1) by (simp flip: replicate_add)
  then have "slice_last 8 (replicate 8 (CHR ''0'') @ toString_radix 36 n) = fixed_width 8 n"
    using z unfolding slice_last_def by (simp add: length_fixed_width)
  then have "tickKey n = ''_qs:tick:'' @ fixed_width 8 n"
    by (simp add: tickKey_def TICK_KEY_LEN_def TICK_KEY_PAD_def TICK_KEY_RADIX_def)
  with z show ?thesis by auto
qed

text \<open>
  C8. The key of a tick below \<open>36 ^ 8\<close> is the prefix followed by the tick's base-36
  digits padded with zeros to exactly 8 characters, and the keys of two such ticks
  \<open>a < b\<close> are in the same strict order as strings.
\<close>

theorem tickKey_ordered:
  assumes "a < b" and "b < 36 ^ 8"
  shows "tickKey a < tickKey b
    \<and> (\<exists>z. z + length (toString_radix 36 a) = 8
          \<and> tickKey a = ''_qs:tick:'' @ replicate z (CHR ''0'') @ toString_radix 36 a)
    \<and> (\<exists>z. z + length (toString_radix 36 b) = 8
          \<and> tickKey b = ''_qs:tick:'' @ replicate z (CHR ''0'') @ toString_radix 36 b)"
proof -
  have a: "a < 36 ^ 8" using assms by simp
  have "tickKey a < tickKey b"
    using fixed_width_mono[OF assms] tickKey_padded[OF a] tickKey_padded[OF assms(2)]
    by auto
  then show ?thesis
    using tickKey_padded[OF a] tickKey_padded[OF assms(2)] by blast
qed

theorem tickKey_ordered_witness:
  "(35::nat) < 36 \<and> (36::nat) < 36 ^ 8 \<and> tickKey 35 < tickKey 36"
  using tickKey_ordered[of 35 36] by simp

text \<open>At \<open>36 ^ 8\<close> the ninth digit is cut off and the key is again that of tick 0.\<close>

lemma tickKey_wraps: "tickKey (36 ^ 8) = tickKey 0"
proof -
  have r: "replicate 7 (CHR ''0'') = ''0000000''"
    by (simp add: numeral_eq_Suc)
  show ?thesis
    by (simp add: tickKey_def TICK_KEY_LEN_def TICK_KEY_PAD_def TICK_KEY_RADIX_def slice_last_def
        toString_radix.simps digit_char_zero digit_char_one r)
qed

section \<open>Properties of the journal\<close>

lemma in_gwc_tids_set: "in_gwc_tids tid gs \<longleftrightarrow> tid \<in> set gs"
  by (induction gs) auto

lemma tid_keys_differ: "tidEntryKey a \<noteq> tidOpKey b"
  by (simp add: tidEntryKey_def tidOpKey_def)

text \<open>
  C7. On an initialised journal, \<open>disposeOperationIfUnreferenced\<close> returns true exactly
  when no entry is indexed under the TID and the TID is not among the TIDs of the GWC;
  it then deletes the record under \<open>_qs:op:tid\<close> and nothing else. Otherwise it returns
  false and the store is as before.
\<close>

theorem dispose_iff_unreferenced:
  assumes "state J = Inr (J0, s)"
  shows "\<exists>J'. disposeOperationIfUnreferenced tids J tid =
           Inr (J', tidEntryKey tid \<notin> dom (store J) \<and> tid \<notin> set (tids (js_gwc s)))
       \<and> store J' =
           (if tidEntryKey tid \<notin> dom (store J) \<and> tid \<notin> set (tids (js_gwc s))
            then (store J)(tidOpKey tid := None) else store J)"
proof -
  have st: "store J0 = store J"
    using assms by (auto simp: state_def split: option.splits kv_value.splits)
  show ?thesis
    using assms st
    by (auto simp: disposeOperationIfUnreferenced_def in_gwc_tids_set commit_kvps_def)
qed

theorem dispose_iff_unreferenced_witness:
  "state ex_journal = Inr (ex_journal, \<lparr>js_tailTick = 3, js_time = ex_time 2, js_gwc = [''t3'']\<rparr>)
   \<and> (\<exists>J'. disposeOperationIfUnreferenced id ex_journal ''t9'' = Inr (J', True)
          \<and> store J' = ex_store(tidOpKey ''t9'' := None))
   \<and> (\<exists>J'. disposeOperationIfUnreferenced id ex_journal ''t2'' = Inr (J', False)
          \<and> store J' = ex_store)"
proof -
  let ?s = "\<lparr>js_tailTick = 3, js_time = ex_time 2, js_gwc = [''t3'']\<rparr>"
  have s: "state ex_journal = Inr (ex_journal, ?s)"
    by (simp add: state_def ex_journal_def)
  have st: "store ex_journal = ex_store"
    by (simp add: ex_journal_def)
  have d9: "tidEntryKey ''t9'' \<notin> dom ex_store \<and> ''t9'' \<notin> set (id (js_gwc ?s))"
    by (simp add: ex_store_def tidEntryKey_def tidOpKey_def dom_def)
  have d2: "\<not> (tidEntryKey ''t2'' \<notin> dom ex_store \<and> ''t2'' \<notin> set (id (js_gwc ?s)))"
    by (simp add: ex_store_def tidEntryKey_def tidOpKey_def dom_def)
  have a: "\<exists>J'. disposeOperationIfUnreferenced id ex_journal ''t9'' = Inr (J', True)
          \<and> store J' = ex_store(tidOpKey ''t9'' := None)"
    using dispose_iff_unreferenced[OF s, of id "''t9''"] d9 unfolding st by simp
  have b: "\<exists>J'. disposeOperationIfUnreferenced id ex_journal ''t2'' = Inr (J', False)
          \<and> store J' = ex_store"
    using dispose_iff_unreferenced[OF s, of id "''t2''"] d2 unfolding st by simp
  from s a b show ?thesis by blast
qed

lemma linked_snoc:
  "linked ticked_at is_zero_id J minFrom (pre @ [(ptid, p)]) \<Longrightarrow>
   contiguous_back ticked_at is_zero_id minFrom cur (entryPrev J tid) \<Longrightarrow>
   map_option snd (entryPrev J tid) = Some ptid \<Longrightarrow>
   operation J ptid = Some p \<Longrightarrow>
   linked ticked_at is_zero_id J minFrom (pre @ [(ptid, p), (tid, cur)])"
proof (induction pre)
  case Nil
  then show ?case by simp
next
  case (Cons a pre)
  obtain atid aop where a: "a = (atid, aop)" by (cases a)
  show ?case
  proof (cases pre)
    case Nil
    then show ?thesis using Cons.prems a by simp
  next
    case (Cons b pre')
    obtain btid bop where b: "b = (btid, bop)" by (cases b)
    show ?thesis using Cons.IH Cons.prems a b Cons by simp
  qed
qed

lemma seekToFrom_walk:
  assumes wf: "links_stored J minFrom"
  shows "\<exists>pre. linked ticked_at is_zero_id J minFrom (pre @ [(tid, cur)])
      \<and> \<not> contiguous_back ticked_at is_zero_id minFrom (snd (hd (pre @ [(tid, cur)])))
            (entryPrev J (fst (hd (pre @ [(tid, cur)]))))
      \<and> seekToFrom ticked_at is_zero_id J minFrom cur later tick tid =
          Some (Inr (snd (hd (pre @ [(tid, cur)])), map snd (tl (pre @ [(tid, cur)])) @ later))"
proof (induction "nat (op_from cur - minFrom)" arbitrary: cur later tick tid rule: less_induct)
  case less
  show ?case
  proof (cases "contiguous_back ticked_at is_zero_id minFrom cur (entryPrev J tid)")
    case False
    then have "seekToFrom ticked_at is_zero_id J minFrom cur later tick tid = Some (Inr (cur, later))"
      by (subst seekToFrom.simps) (auto simp: contiguous_back_def split: option.splits)
    with False show ?thesis by (intro exI[of _ "[]"]) simp
  next
    case True
    then obtain pt ptid where ep: "entryPrev J tid = Some (pt, ptid)"
      and c: "minFrom \<le> pt" "pt = op_from cur - 1" "\<not> is_zero_id (ticked_at (op_time cur) pt)"
      by (auto simp: contiguous_back_def split: option.splits)
    from wf ep c(1) obtain p where p: "operation J ptid = Some p" "op_from p \<le> pt"
      unfolding links_stored_def by blast
    have m: "nat (op_from p - minFrom) < nat (op_from cur - minFrom)"
      using p(2) c(1,2) by linarith
    from less[OF m, where later = "cur # later" and tick = pt and tid = ptid] obtain pre where pre:
      "linked ticked_at is_zero_id J minFrom (pre @ [(ptid, p)])"
      "\<not> contiguous_back ticked_at is_zero_id minFrom (snd (hd (pre @ [(ptid, p)])))
            (entryPrev J (fst (hd (pre @ [(ptid, p)]))))"
      "seekToFrom ticked_at is_zero_id J minFrom p (cur # later) pt ptid =
          Some (Inr (snd (hd (pre @ [(ptid, p)])), map snd (tl (pre @ [(ptid, p)])) @ cur # later))"
      by blast
    have s: "seekToFrom ticked_at is_zero_id J minFrom cur later tick tid =
             seekToFrom ticked_at is_zero_id J minFrom p (cur # later) pt ptid"
      using ep c p by (subst seekToFrom.simps) (simp add: meldOperation_def)
    let ?pre = "pre @ [(ptid, p)]"
    have l: "linked ticked_at is_zero_id J minFrom (?pre @ [(tid, cur)])"
      using linked_snoc[OF pre(1) True _ p(1)] ep by simp
    have h: "hd (?pre @ [(tid, cur)]) = hd ?pre" by (cases pre) simp_all
    have t: "map snd (tl (?pre @ [(tid, cur)])) @ later = map snd (tl ?pre) @ cur # later"
      by (cases pre) simp_all
    have "linked ticked_at is_zero_id J minFrom (?pre @ [(tid, cur)])
      \<and> \<not> contiguous_back ticked_at is_zero_id minFrom (snd (hd (?pre @ [(tid, cur)])))
            (entryPrev J (fst (hd (?pre @ [(tid, cur)]))))
      \<and> seekToFrom ticked_at is_zero_id J minFrom cur later tick tid =
          Some (Inr (snd (hd (?pre @ [(tid, cur)])), map snd (tl (?pre @ [(tid, cur)])) @ later))"
      unfolding h t s using l pre(2) pre(3) by simp
    then show ?thesis by (rule exI[of _ ?pre])
  qed
qed

text \<open>Whatever the walk returns is such a chain, on any store.\<close>

lemma seekToFrom_step:
  assumes IH: "\<And>p later' pt ptid r'. seek tk z J minFrom p later' pt ptid = Some r' \<Longrightarrow>
                 walked tk z J minFrom p later' ptid r'"
    and body: "(case entryPrev J tid of None \<Rightarrow> Some (Inr (cur, later))
      | Some (prevTick, prevTid) \<Rightarrow>
          if minFrom \<le> prevTick \<and> prevTick = op_from cur - 1 \<and> \<not> z (tk (op_time cur) prevTick)
          then case meldOperation J prevTid of Inl e \<Rightarrow> Some (Inl e)
               | Inr prevOp \<Rightarrow> seek tk z J minFrom prevOp (cur # later) prevTick prevTid
          else Some (Inr (cur, later))) = Some r"
  shows "walked tk z J minFrom cur later tid r"
proof (cases "contiguous_back tk z minFrom cur (entryPrev J tid)")
    case False
    then have "r = Inr (cur, later)"
      using body by (auto simp: contiguous_back_def split: option.splits if_splits)
    with False show ?thesis unfolding walked_def by (auto intro: exI[of _ "[]"])
  next
    case True
    then obtain pt ptid where ep: "entryPrev J tid = Some (pt, ptid)"
      and c: "minFrom \<le> pt" "pt = op_from cur - 1" "\<not> z (tk (op_time cur) pt)"
      by (auto simp: contiguous_back_def split: option.splits)
    show ?thesis
    proof (cases "meldOperation J ptid")
      case (Inl e)
      then have "r = Inl e" using body ep c by simp
      then show ?thesis by (simp add: walked_def)
    next
      case (Inr p)
      then have s: "seek tk z J minFrom p (cur # later) pt ptid = Some r"
        using body ep c by simp
      have po: "operation J ptid = Some p"
        using Inr by (auto simp: meldOperation_def split: option.splits)
      show ?thesis
      proof (cases r)
        case (Inl e)
        then show ?thesis by (simp add: walked_def)
      next
        case (Inr fh)
        obtain first hist where fh: "fh = (first, hist)" by (cases fh)
        from IH[OF s] Inr fh obtain pre where pre:
          "linked tk z J minFrom (pre @ [(ptid, p)])"
          "\<not> contiguous_back tk z minFrom (snd (hd (pre @ [(ptid, p)])))
                (entryPrev J (fst (hd (pre @ [(ptid, p)]))))"
          "first = snd (hd (pre @ [(ptid, p)]))"
          "hist = map snd (tl (pre @ [(ptid, p)])) @ cur # later"
          unfolding walked_def by auto
        let ?pre = "pre @ [(ptid, p)]"
        have l: "linked tk z J minFrom (?pre @ [(tid, cur)])"
          using linked_snoc[OF pre(1) True _ po] ep by simp
        have h: "hd (?pre @ [(tid, cur)]) = hd ?pre" by (cases pre) simp_all
        have t: "map snd (tl (?pre @ [(tid, cur)])) @ later = map snd (tl ?pre) @ cur # later"
          by (cases pre) simp_all
        have "linked tk z J minFrom (?pre @ [(tid, cur)])
                \<and> \<not> contiguous_back tk z minFrom (snd (hd (?pre @ [(tid, cur)])))
                      (entryPrev J (fst (hd (?pre @ [(tid, cur)]))))
                \<and> first = snd (hd (?pre @ [(tid, cur)]))
                \<and> hist = map snd (tl (?pre @ [(tid, cur)])) @ later"
          unfolding h t using l pre(2,3,4) by simp
        then show ?thesis unfolding Inr fh walked_def by (auto intro: exI[of _ ?pre])
      qed
    qed
qed

lemma seekToFrom_result:
  assumes "seekToFrom tk z J minFrom cur later tick tid = Some r"
  shows "walked tk z J minFrom cur later tid r"
  by (rule seekToFrom.raw_induct[where P = "\<lambda>tk z J minFrom cur later tick tid r.
        walked tk z J minFrom cur later tid r", OF _ assms])
     (rule seekToFrom_step, assumption+)

lemma fastForward_time:
  assumes "ends_at_last cop"
  shows "op_time (fastForward cop first later) = op_time (last (first # later))"
proof (cases later rule: rev_cases)
  case Nil
  then show ?thesis using assms by (simp add: fastForward_def ends_at_last_def)
next
  case (snoc ys y)
  then show ?thesis using assms by (simp add: fastForward_def ends_at_last_def)
qed

text \<open>
  C6. Whenever \<open>causalReduce\<close> returns an operation, it has collected a chain of
  operations ending with \<open>op\<close>, each reached from its successor by a step back that
  the four conditions allow, with no further step back allowed from the earliest; the
  result is the operator started on the earliest operation and fed the later ones in
  order, and for an operator that ends at its last operation it carries the time of
  \<open>op\<close>. On a journal that holds the operations its \<open>prev\<close> links point to,
  \<open>causalReduce\<close> does return an operation.
\<close>

theorem causalReduce_walks_back:
  "(links_stored J minFrom \<longrightarrow>
      (\<exists>r. causalReduce ticked_at is_zero_id J op cop minFrom = Some (Inr r)))
   \<and> (\<forall>r. causalReduce ticked_at is_zero_id J op cop minFrom = Some (Inr r) \<longrightarrow>
        (\<exists>chain. chain \<noteq> [] \<and> last chain = (jo_tid op, jo_meld op)
           \<and> linked ticked_at is_zero_id J minFrom chain
           \<and> \<not> contiguous_back ticked_at is_zero_id minFrom (snd (hd chain))
                 (entryPrev J (fst (hd chain)))
           \<and> r = fastForward cop (snd (hd chain)) (map snd (tl chain))
           \<and> (ends_at_last cop \<longrightarrow> op_time r = op_time (jo_meld op))))"
proof (intro conjI impI allI)
  assume "links_stored J minFrom"
  from seekToFrom_walk[OF this, of ticked_at is_zero_id "jo_tid op" "jo_meld op" "[]" "jo_tick op"]
  obtain first hist where
    "seekToFrom ticked_at is_zero_id J minFrom (jo_meld op) [] (jo_tick op) (jo_tid op) =
        Some (Inr (first, hist))"
    by blast
  then show "\<exists>r. causalReduce ticked_at is_zero_id J op cop minFrom = Some (Inr r)"
    by (simp add: causalReduce_def)
next
  fix r
  assume r: "causalReduce ticked_at is_zero_id J op cop minFrom = Some (Inr r)"
  then obtain first hist where
    s: "seekToFrom ticked_at is_zero_id J minFrom (jo_meld op) [] (jo_tick op) (jo_tid op) =
        Some (Inr (first, hist))"
    and f: "r = fastForward cop first hist"
    by (auto simp: causalReduce_def split: option.splits sum.splits)
  from seekToFrom_result[OF s] obtain pre where pre:
    "linked ticked_at is_zero_id J minFrom (pre @ [(jo_tid op, jo_meld op)])"
    "\<not> contiguous_back ticked_at is_zero_id minFrom (snd (hd (pre @ [(jo_tid op, jo_meld op)])))
            (entryPrev J (fst (hd (pre @ [(jo_tid op, jo_meld op)]))))"
    "first = snd (hd (pre @ [(jo_tid op, jo_meld op)]))"
    "hist = map snd (tl (pre @ [(jo_tid op, jo_meld op)])) @ []"
    unfolding walked_def by auto
  let ?chain = "pre @ [(jo_tid op, jo_meld op)]"
  have e: "r = fastForward cop (snd (hd ?chain)) (map snd (tl ?chain))"
    using f pre(3,4) by simp
  have "snd (hd ?chain) # map snd (tl ?chain) = map snd ?chain"
    by (cases pre) simp_all
  then have "last (snd (hd ?chain) # map snd (tl ?chain)) = jo_meld op"
    by (simp add: last_map)
  then have t: "ends_at_last cop \<longrightarrow> op_time r = op_time (jo_meld op)"
    unfolding e using fastForward_time[of cop] by metis
  show "\<exists>chain. chain \<noteq> [] \<and> last chain = (jo_tid op, jo_meld op)
           \<and> linked ticked_at is_zero_id J minFrom chain
           \<and> \<not> contiguous_back ticked_at is_zero_id minFrom (snd (hd chain))
                 (entryPrev J (fst (hd chain)))
           \<and> r = fastForward cop (snd (hd chain)) (map snd (tl chain))
           \<and> (ends_at_last cop \<longrightarrow> op_time r = op_time (jo_meld op))"
    by (rule exI[of _ ?chain]) (use pre(1,2) e t in simp)
qed

lemma ex_links_stored: "links_stored ex_journal 1"
  unfolding links_stored_def
  by (auto simp: ex_journal_def ex_store_def entryPrev_def
      tidEntryKey_def tidOpKey_def operation_def split: if_splits)

lemma ex_ends_at_last: "ends_at_last fuse_operator"
  by (simp add: ends_at_last_def fuse_operator_def)

text \<open>
  On the example journal the walk from the third transaction collects the second and
  stops at the fork: the first transaction is the parent's.
\<close>

lemma ex_causalReduce:
  "causalReduce ticked_to isZeroId ex_journal ex_op3 fuse_operator 1 =
     Some (Inr \<lparr>op_from = 2, op_time = ex_time 2, op_data = [''wilma'', ''barney'']\<rparr>)"
  by (simp add: causalReduce_def seekToFrom.simps ex_journal_def ex_store_def entryPrev_def
      ex_op3_def ex_time_def tidEntryKey_def tidOpKey_def meldOperation_def operation_def
      fastForward_def fuse_operator_def)

theorem causalReduce_walks_back_witness:
  "links_stored ex_journal 1 \<and> ends_at_last fuse_operator
   \<and> causalReduce ticked_to isZeroId ex_journal ex_op3 fuse_operator 1 =
       Some (Inr \<lparr>op_from = 2, op_time = ex_time 2, op_data = [''wilma'', ''barney'']\<rparr>)
   \<and> (\<exists>chain. chain \<noteq> [] \<and> last chain = (jo_tid ex_op3, jo_meld ex_op3)
      \<and> linked ticked_to isZeroId ex_journal 1 chain
      \<and> \<not> contiguous_back ticked_to isZeroId 1 (snd (hd chain))
            (entryPrev ex_journal (fst (hd chain)))
      \<and> \<lparr>op_from = 2, op_time = ex_time 2, op_data = [''wilma'', ''barney'']\<rparr> =
          fastForward fuse_operator (snd (hd chain)) (map snd (tl chain))
      \<and> op_time \<lparr>op_from = 2, op_time = ex_time 2, op_data = [''wilma'', ''barney'']\<rparr>
          = op_time (jo_meld ex_op3))"
  using causalReduce_walks_back[of ex_journal 1 ticked_to isZeroId ex_op3 fuse_operator]
    ex_links_stored ex_ends_at_last ex_causalReduce
  by blast

section \<open>Properties of the operation buffers\<close>

lemma ex_small: "bufferFromJson ex_codecs ''{}'' = (ex_pack ''{}'', [MSGPACK])"
  by (simp add: bufferFromJson_def ex_codecs_def ex_pack_def COMPRESS_THRESHOLD_BYTES_def)

text \<open>
  C4, as stated, fails: for a small JSON value the encoder records \<open>[MSGPACK]\<close>, not
  \<open>[JSON]\<close>, and the buffer is the message-pack encoding.
\<close>

theorem bufferFromJson_small_not_json:
  "snd (bufferFromJson ex_codecs ''{}'') \<noteq> [JSON]
   \<and> bufferFromJson ex_codecs ''{}'' = (msgpack_encode ex_codecs ''{}'', [MSGPACK])"
  by (simp add: ex_small) (simp add: ex_codecs_def)

text \<open>
  C4, amended. The encoder always packs with message-pack: when the packed form is at
  most 1024 bytes it is the buffer and the encoding vector is \<open>[MSGPACK]\<close>; when it is
  longer the buffer is its gzip compression and the vector is \<open>[MSGPACK, GZIP]\<close>.
\<close>

theorem bufferFromJson_encodings:
  "(length (msgpack_encode c json) \<le> 1024 \<longrightarrow>
      bufferFromJson c json = (msgpack_encode c json, [MSGPACK]))
   \<and> (length (msgpack_encode c json) > 1024 \<longrightarrow>
      bufferFromJson c json = (gzipSync c (msgpack_encode c json), [MSGPACK, GZIP]))"
  by (simp add: bufferFromJson_def COMPRESS_THRESHOLD_BYTES_def Let_def)

lemma ex_pack_length: "length (ex_pack s) > length s"
  by (simp add: ex_pack_def Let_def)

theorem bufferFromJson_encodings_witness:
  "length (msgpack_encode ex_codecs ''{}'') \<le> 1024
   \<and> bufferFromJson ex_codecs ''{}'' = (msgpack_encode ex_codecs ''{}'', [MSGPACK])
   \<and> length (msgpack_encode ex_codecs (replicate 1024 (CHR ''x''))) > 1024
   \<and> bufferFromJson ex_codecs (replicate 1024 (CHR ''x''))
       = (gzipSync ex_codecs (msgpack_encode ex_codecs (replicate 1024 (CHR ''x''))), [MSGPACK, GZIP])"
proof -
  have a: "length (msgpack_encode ex_codecs ''{}'') \<le> 1024"
    by (simp add: ex_codecs_def ex_pack_def)
  have b: "length (msgpack_encode ex_codecs (replicate 1024 (CHR ''x''))) > 1024"
    using ex_pack_length[of "replicate 1024 (CHR ''x'')"] by (simp add: ex_codecs_def)
  show ?thesis
    using bufferFromJson_encodings[of ex_codecs "''{}''"]
      bufferFromJson_encodings[of ex_codecs "replicate 1024 (CHR ''x'')"] a b
    by blast
qed

text \<open>
  C5. When the libraries decode what they encoded for the value \<open>json\<close>,
  \<open>jsonFromBuffer\<close> applied to the buffer and encoding vector of \<open>bufferFromJson\<close>
  returns \<open>json\<close>, and encoding the decoded value gives the same buffer again.
\<close>

theorem jsonFromBuffer_bufferFromJson:
  assumes "msgpack_decode c (Buf (msgpack_encode c json)) = Inr json"
    and "gunzipSync c (Buf (gzipSync c (msgpack_encode c json))) = Inr (msgpack_encode c json)"
  shows "jsonFromBuffer c (fst (bufferFromJson c json)) (snd (bufferFromJson c json)) = Inr (Val json)
    \<and> (\<exists>v. jsonFromBuffer c (fst (bufferFromJson c json)) (snd (bufferFromJson c json)) = Inr (Val v)
          \<and> bufferFromJson c v = bufferFromJson c json)"
  using assms by (simp add: jsonFromBuffer_def bufferFromJson_def Let_def)

lemma ex_unpack_pack: "length s < 65536 \<Longrightarrow> ex_unpack (Buf (ex_pack s)) = Inr s"
  by (auto simp: ex_unpack_def ex_pack_def Let_def of_char_of)

lemma ex_gunzip_gzip: "ex_gunzip (Buf (ex_gzip b)) = Inr b"
  by (simp add: ex_gunzip_def ex_gzip_def of_char_of)

theorem jsonFromBuffer_bufferFromJson_witness:
  "jsonFromBuffer ex_codecs (fst (bufferFromJson ex_codecs ''{}'')) (snd (bufferFromJson ex_codecs ''{}''))
     = Inr (Val ''{}'')
   \<and> jsonFromBuffer ex_codecs (fst (bufferFromJson ex_codecs (replicate 1024 (CHR ''x''))))
        (snd (bufferFromJson ex_codecs (replicate 1024 (CHR ''x''))))
     = Inr (Val (replicate 1024 (CHR ''x'')))"
proof -
  have u: "msgpack_decode ex_codecs (Buf (msgpack_encode ex_codecs s)) = Inr s"
    if "length s < 65536" for s
    using that by (simp add: ex_codecs_def ex_unpack_pack)
  have g: "gunzipSync ex_codecs (Buf (gzipSync ex_codecs b)) = Inr b" for b
    by (simp add: ex_codecs_def ex_gunzip_gzip)
  have l1: "length ''{}'' < (65536::nat)" by simp
  have l2: "length (replicate 1024 (CHR ''x'')) < (65536::nat)" by simp
  show ?thesis
    using jsonFromBuffer_bufferFromJson[OF u[OF l1] g]
      jsonFromBuffer_bufferFromJson[OF u[OF l2] g]
    by blast
qed


section \<open>Properties of reification\<close>

lemma rids_set_absent: "rid \<notin> fst ` set acc \<Longrightarrow> rids_set acc rid e = acc @ [(rid, e)]"
  by (induction acc) auto

lemma rids_set_last: "rid \<notin> fst ` set acc \<Longrightarrow> rids_set (acc @ [(rid, e0)]) rid e = acc @ [(rid, e)]"
  by (induction acc) auto

lemma map_of_absent: "rid \<notin> fst ` set acc \<Longrightarrow> map_of acc rid = None"
  by (simp add: map_of_eq_None_iff)

lemma map_of_last: "rid \<notin> fst ` set acc \<Longrightarrow> map_of (acc @ [(rid, e)]) rid = Some e"
  by (induction acc) auto

lemma rids_get_last: "rid \<notin> fst ` set acc \<Longrightarrow> rids_get (acc @ [(rid, e)]) rid = Inr e"
  by (simp add: rids_get_def map_of_last del: map_of_append)

lemma rids_get_absent:
  "rid \<notin> fst ` set acc \<Longrightarrow> rid \<notin> set OBJECT_PROTOTYPE_KEYS \<Longrightarrow>
   rids_get acc rid = Inr (\<lparr>p_id = ''_:'' @ rid, p_subject = None, p_predicate = None, p_object = None\<rparr>, [])"
  by (simp add: rids_get_def map_of_absent)

lemma unreify_subject:
  assumes "rid \<notin> fst ` set acc" "rid \<notin> set OBJECT_PROTOTYPE_KEYS" "isNamedNode s"
  shows "unreify_one acc (rdf_quad (BlankNode rid) (NamedNode RDF_subject) s) =
     Inr (acc @ [(rid, (\<lparr>p_id = ''_:'' @ rid, p_subject = Some s, p_predicate = None, p_object = None\<rparr>, []))])"
  using assms by (simp add: unreify_one_def rdf_quad_def rids_get_absent rids_set_absent)

lemma unreify_predicate:
  assumes "rid \<notin> fst ` set acc" "isNamedNode p"
  shows "unreify_one (acc @ [(rid, (tr, ts))]) (rdf_quad (BlankNode rid) (NamedNode RDF_predicate) p) =
     Inr (acc @ [(rid, (tr\<lparr>p_predicate := Some p\<rparr>, ts))])"
  using assms
  by (simp add: unreify_one_def rdf_quad_def rids_get_last rids_set_last
      RDF_subject_def RDF_predicate_def)

lemma unreify_object:
  assumes "rid \<notin> fst ` set acc"
  shows "unreify_one (acc @ [(rid, (tr, ts))]) (rdf_quad (BlankNode rid) (NamedNode RDF_object) ob) =
     Inr (acc @ [(rid, (tr\<lparr>p_object := Some ob\<rparr>, ts))])"
  using assms
  by (simp add: unreify_one_def rdf_quad_def rids_get_last rids_set_last
      RDF_subject_def RDF_predicate_def RDF_object_def)

lemma unreify_tid:
  assumes "rid \<notin> fst ` set acc"
  shows "unreify_one (acc @ [(rid, (tr, ts))]) (rdf_quad (BlankNode rid) (NamedNode M_LD_tid) (rdf_literal tid)) =
     Inr (acc @ [(rid, (tr, ts @ [tid]))])"
  using assms
  by (simp add: unreify_one_def rdf_quad_def rids_get_last rids_set_last rdf_literal_def
      RDF_subject_def RDF_predicate_def RDF_object_def M_LD_tid_def)

lemma unreify_tids:
  assumes "rid \<notin> fst ` set acc"
  shows "unreify_reduce (acc @ [(rid, (tr, ts))])
      (map (\<lambda>tid. rdf_quad (BlankNode rid) (NamedNode M_LD_tid) (rdf_literal tid)) tids @ rest) =
     unreify_reduce (acc @ [(rid, (tr, ts @ tids))]) rest"
  using assms by (induction tids arbitrary: ts) (simp_all add: unreify_tid)

lemma unreify_reification:
  assumes "drop 2 (at_id t) \<notin> fst ` set acc" "drop 2 (at_id t) \<notin> set OBJECT_PROTOTYPE_KEYS"
    and "startsWith (at_id t) ''_:''" "isNamedNode (subject t)" "isNamedNode (predicate t)"
  shows "unreify_reduce acc (reification t tids @ rest) =
     unreify_reduce (acc @ [(drop 2 (at_id t), (as_partial t, tids))]) rest"
proof -
  have "''_:'' @ drop 2 (at_id t) = at_id t"
    using assms(3) unfolding startsWith_def
    by (metis append_take_drop_id length_Cons list.size(3) numeral_2_eq_2)
  then have id: "CHR ''_'' # CHR '':'' # drop 2 (at_id t) = at_id t" by simp
  show ?thesis
    using assms(1,2,4,5) unreify_tids[OF assms(1), where ts = "[]"]
    by (simp add: reification_def Let_def unreify_subject unreify_predicate unreify_object
        as_partial_def id)
qed

lemma drop2_inj:
  "startsWith a ''_:'' \<Longrightarrow> startsWith b ''_:'' \<Longrightarrow> drop 2 a = drop 2 b \<Longrightarrow> a = b"
  unfolding startsWith_def by (metis append_take_drop_id length_Cons list.size(3) numeral_2_eq_2)

lemma reify_each_ok:
  "\<forall>x \<in> set xs. startsWith (at_id (fst x)) ''_:'' \<Longrightarrow>
   reify_each xs = Inr (map (\<lambda>x. reification (fst x) (snd x)) xs)"
  by (induction xs) (auto)

lemma unreify_reduce_reified:
  assumes "distinct (map (at_id \<circ> fst) xs)" "\<forall>x \<in> set xs. reifiable (fst x)"
    and "\<forall>x \<in> set xs. drop 2 (at_id (fst x)) \<notin> fst ` set acc"
  shows "unreify_reduce acc (concat (map (\<lambda>x. reification (fst x) (snd x)) xs)) =
     Inr (acc @ map rid_entry xs)"
  using assms
proof (induction xs arbitrary: acc)
  case Nil
  then show ?case by simp
next
  case (Cons x xs)
  obtain t tids where x: "x = (t, tids)" by (cases x)
  have r: "reifiable t" using Cons.prems(2) x by simp
  have a: "drop 2 (at_id t) \<notin> fst ` set acc" using Cons.prems(3) x by simp
  let ?acc = "acc @ [(drop 2 (at_id t), (as_partial t, tids))]"
  have step: "unreify_reduce acc (reification t tids @ concat (map (\<lambda>x. reification (fst x) (snd x)) xs)) =
     unreify_reduce ?acc (concat (map (\<lambda>x. reification (fst x) (snd x)) xs))"
    using unreify_reification[OF a] r unfolding reifiable_def by blast
  have d: "\<forall>y \<in> set xs. drop 2 (at_id (fst y)) \<notin> fst ` set ?acc"
  proof
    fix y assume y: "y \<in> set xs"
    have "at_id (fst y) \<noteq> at_id t" using Cons.prems(1) y x by (auto simp: image_iff)
    moreover have "reifiable (fst y)" using Cons.prems(2) y by simp
    ultimately have "drop 2 (at_id (fst y)) \<noteq> drop 2 (at_id t)"
      using r drop2_inj unfolding reifiable_def by blast
    moreover have "drop 2 (at_id (fst y)) \<notin> fst ` set acc" using Cons.prems(3) y by simp
    ultimately show "drop 2 (at_id (fst y)) \<notin> fst ` set ?acc" by auto
  qed
  have "unreify_reduce ?acc (concat (map (\<lambda>x. reification (fst x) (snd x)) xs)) =
     Inr (?acc @ map rid_entry xs)"
    using Cons.IH[of ?acc] Cons.prems(1,2) d by simp
  then show ?case using step x by (simp add: rid_entry_def)
qed

lemma mset_Object_values: "mset (Object_values obj) = mset (map snd obj)"
proof -
  have "mset (filter P obj) + mset (filter (\<lambda>x. \<not> P x) obj) = mset obj" for P :: "_ \<Rightarrow> bool"
    by (induction obj) auto
  then have "image_mset snd (mset (filter P obj)) + image_mset snd (mset (filter (\<lambda>x. \<not> P x) obj))
     = image_mset snd (mset obj)" for P :: "_ \<Rightarrow> bool"
    by (metis image_mset_union)
  from this[of "\<lambda>(k, v). array_index k \<noteq> None"] show ?thesis
    unfolding Object_values_def by (simp add: case_prod_unfold)
qed

lemma Object_values_no_index:
  "\<forall>x \<in> set obj. array_index (fst x) = None \<Longrightarrow> Object_values obj = map snd obj"
  unfolding Object_values_def
  by (simp add: case_prod_unfold filter_empty_conv[THEN iffD2] cong: filter_cong)

text \<open>
  The round trip, for distinct blank node identifiers that are not names of inherited
  properties: the same triples with the same TIDs come back, as a multiset, and in the
  same order when no label is an array index.
\<close>

lemma reify_unreify_roundtrip:
  assumes "distinct (map (at_id \<circ> fst) xs)" "\<forall>x \<in> set xs. reifiable (fst x)"
  shows "\<exists>qs ys. reifyTriplesTids xs = Inr qs \<and> unreifyTriplesTids qs = Inr ys
     \<and> mset ys = mset (map (\<lambda>x. (as_partial (fst x), snd x)) xs)
     \<and> ((\<forall>x \<in> set xs. array_index (drop 2 (at_id (fst x))) = None) \<longrightarrow>
          ys = map (\<lambda>x. (as_partial (fst x), snd x)) xs)"
proof -
  have s: "\<forall>x \<in> set xs. startsWith (at_id (fst x)) ''_:''"
    using assms(2) unfolding reifiable_def by blast
  let ?qs = "concat (map (\<lambda>x. reification (fst x) (snd x)) xs)"
  have q: "reifyTriplesTids xs = Inr ?qs"
    by (simp add: reifyTriplesTids_def reify_each_ok[OF s])
  have u: "unreify_reduce [] ?qs = Inr (map rid_entry xs)"
    using unreify_reduce_reified[OF assms, of "[]"] by simp
  have v: "unreifyTriplesTids ?qs = Inr (Object_values (map rid_entry xs))"
    by (simp add: unreifyTriplesTids_def u)
  have e: "map snd (map rid_entry xs) = map (\<lambda>x. (as_partial (fst x), snd x)) xs"
    by (simp add: rid_entry_def)
  have m: "mset (Object_values (map rid_entry xs)) = mset (map (\<lambda>x. (as_partial (fst x), snd x)) xs)"
    unfolding mset_Object_values e ..
  have n: "(\<forall>x \<in> set xs. array_index (drop 2 (at_id (fst x))) = None) \<longrightarrow>
          Object_values (map rid_entry xs) = map (\<lambda>x. (as_partial (fst x), snd x)) xs"
  proof
    assume "\<forall>x \<in> set xs. array_index (drop 2 (at_id (fst x))) = None"
    then have "\<forall>y \<in> set (map rid_entry xs). array_index (fst y) = None"
      by (auto simp: rid_entry_def)
    from Object_values_no_index[OF this] show "Object_values (map rid_entry xs) = map (\<lambda>x. (as_partial (fst x), snd x)) xs"
      using e by simp
  qed
  show ?thesis using q v m n by blast
qed

lemma reify_not_blank:
  "\<exists>x \<in> set xs. \<not> startsWith (at_id (fst x)) ''_:'' \<Longrightarrow> \<exists>msg. reifyTriplesTids xs = Inl (TypeError msg)"
proof (induction xs)
  case Nil
  then show ?case by simp
next
  case (Cons x xs)
  obtain t tids where x: "x = (t, tids)" by (cases x)
  show ?case
  proof (cases "startsWith (at_id t) ''_:''")
    case False
    then show ?thesis using x by (simp add: reifyTriplesTids_def)
  next
    case True
    then have "\<exists>msg. reifyTriplesTids xs = Inl (TypeError msg)"
      using Cons x by auto
    then show ?thesis using True x by (auto simp: reifyTriplesTids_def split: sum.splits)
  qed
qed

text \<open>
  C10. The round trip fails for a triple identified by \<open>_:constructor\<close>: its
  reification is made, and \<open>unreifyTriplesTids\<close> throws on reading the inherited
  property \<open>constructor\<close> of its accumulator, where the claim says that the triple and
  its TID come back.
\<close>

theorem unreify_inherited_key_throws:
  "reifyTriplesTids [(ex_constructor, [''t1''])] = Inr (reification ex_constructor [''t1''])
   \<and> startsWith (at_id ex_constructor) ''_:''
   \<and> isNamedNode (subject ex_constructor) \<and> isNamedNode (predicate ex_constructor)
   \<and> unreifyTriplesTids (reification ex_constructor [''t1''])
       = Inl (TypeError ''rids[rid] is not iterable'')"
  by (simp add: reifyTriplesTids_def reification_def startsWith_def rdf_quad_def rdf_literal_def
      ex_fred_def ex_constructor_def Let_def unreifyTriplesTids_def unreify_one_def rids_get_def
      OBJECT_PROTOTYPE_KEYS_def)

lemma ex_roundtrip:
  "unreifyTriplesTids (reification ex_fred [''t1'', ''t2''] @ reification ex_wilma [''t3'']) =
     Inr [(as_partial ex_wilma, [''t3'']), (as_partial ex_fred, [''t1'', ''t2''])]"
  by (simp add: reification_def startsWith_def rdf_quad_def rdf_literal_def
      ex_fred_def ex_wilma_def Let_def unreifyTriplesTids_def unreify_one_def rids_get_def
      OBJECT_PROTOTYPE_KEYS_def RDF_subject_def RDF_predicate_def RDF_object_def M_LD_tid_def
      Object_values_def array_index_def is_digit_def decimal_value_def less_eq_char_def
      as_partial_def)


section \<open>Properties of the initialisation\<close>

text \<open>
  C9. A clone with a stored clock that is not a bare id asks the remotes to rev it up
  from its last hash. When they answer nothing, it requests a snapshot and applies it;
  when they answer a stream, each of its operations is handed to the message service
  and no snapshot is requested.
\<close>

theorem initialise_revup_or_snapshot:
  assumes "loadClock dataset = Some time" and "\<not> isId time"
  shows "(remotes_revupFrom remotes (lastHash dataset) = Inr None \<longrightarrow>
            remotes_snapshot remotes = Inr snapshot \<longrightarrow>
            initialise dataset remotes =
              (map Published (unsentLocalOperations dataset)
                 @ [UpdatesSubscribed, RevupRequested (lastHash dataset),
                    SnapshotRequested, SnapshotApplied snapshot]
                 @ map Received (snap_updates snapshot) @ [Connected], None))
       \<and> (remotes_revupFrom remotes (lastHash dataset) = Inr (Some revup) \<longrightarrow>
            initialise dataset remotes =
              (map Published (unsentLocalOperations dataset)
                 @ [UpdatesSubscribed, RevupRequested (lastHash dataset)]
                 @ map Received revup @ [Connected], None)
            \<and> SnapshotRequested \<notin> set (fst (initialise dataset remotes)))"
  using assms by (auto simp: initialise_def requestSnapshot_def Let_def)

theorem initialise_revup_or_snapshot_witness:
  "loadClock ex_dataset = Some (ex_time 2) \<and> \<not> isId (ex_time 2)
   \<and> initialise ex_dataset ex_remotes_no_revup =
       ([Published ''e2'', UpdatesSubscribed, RevupRequested ''h2'', SnapshotRequested,
         SnapshotApplied ex_snapshot, Received ''m5'', Connected], None)
   \<and> initialise ex_dataset ex_remotes_revup =
       ([Published ''e2'', UpdatesSubscribed, RevupRequested ''h2'', Received ''m3'',
         Received ''m4'', Connected], None)"
proof -
  have a: "loadClock ex_dataset = Some (ex_time 2)" by (simp add: ex_dataset_def)
  have b: "\<not> isId (ex_time 2)" by (simp add: ex_time_def)
  have n: "remotes_revupFrom ex_remotes_no_revup (lastHash ex_dataset) = Inr None"
    "remotes_snapshot ex_remotes_no_revup = Inr ex_snapshot"
    by (simp_all add: ex_remotes_no_revup_def)
  have r: "remotes_revupFrom ex_remotes_revup (lastHash ex_dataset) = Inr (Some [''m3'', ''m4''])"
    by (simp add: ex_remotes_revup_def)
  have 1: "initialise ex_dataset ex_remotes_no_revup =
       ([Published ''e2'', UpdatesSubscribed, RevupRequested ''h2'', SnapshotRequested,
         SnapshotApplied ex_snapshot, Received ''m5'', Connected], None)"
    using initialise_revup_or_snapshot[OF a b, of ex_remotes_no_revup ex_snapshot] n
    by (simp add: ex_dataset_def ex_snapshot_def)
  have 2: "initialise ex_dataset ex_remotes_revup =
       ([Published ''e2'', UpdatesSubscribed, RevupRequested ''h2'', Received ''m3'',
         Received ''m4'', Connected], None)"
    using initialise_revup_or_snapshot[OF a b, of ex_remotes_revup _ "[''m3'', ''m4'']"] r
    by (simp add: ex_dataset_def)
  from a b 1 2 show ?thesis by blast
qed


section \<open>Properties of the SU-Set dataset\<close>

lemma carried_Nil: "carried [] x = {}"
  by (simp add: carried_def)

lemma carried_Cons:
  "carried ((t, tids) # rest) x = (if t = x then set tids else {}) \<union> carried rest x"
  by (simp add: carried_def)

lemma withdraw_tids: "withdraw g ds x = g x - carried ds x"
proof (induction g ds rule: withdraw.induct)
  case (1 g)
  then show ?case by (simp add: carried_Nil)
next
  case (2 g t tids rest)
  have "withdraw g ((t, tids) # rest) x = withdraw (g(t := g t - set tids)) rest x"
    by simp
  also have "\<dots> = (g(t := g t - set tids)) x - carried rest x"
    by (rule 2)
  also have "\<dots> = g x - carried ((t, tids) # rest) x"
    unfolding carried_Cons by (cases "t = x") auto
  finally show ?case .
qed

lemma assert_tids_tids: "assert_tids g ins x = g x \<union> carried ins x"
proof (induction g ins rule: assert_tids.induct)
  case (1 g)
  then show ?case by (simp add: carried_Nil)
next
  case (2 g t tids rest)
  have "assert_tids g ((t, tids) # rest) x = assert_tids (g(t := g t \<union> set tids)) rest x"
    by simp
  also have "\<dots> = (g(t := g t \<union> set tids)) x \<union> carried rest x"
    by (rule 2)
  also have "\<dots> = g x \<union> carried ((t, tids) # rest) x"
    unfolding carried_Cons by (cases "t = x") auto
  finally show ?case .
qed

lemma carried_cut: "carried (cut_inserts seen ins) x = carried ins x - set seen"
proof (induction ins)
  case Nil
  then show ?case by (simp add: cut_inserts_def carried_Nil)
next
  case (Cons a ins)
  obtain t tids where a: "a = (t, tids)" by (cases a)
  let ?kept = "filter (\<lambda>tid. tid \<notin> set seen) tids"
  have k: "set ?kept = set tids - set seen" by auto
  have r: "carried (a # ins) x = (if t = x then set tids else {}) \<union> carried ins x"
    unfolding a by (rule carried_Cons)
  show ?case
  proof (cases "?kept = []")
    case True
    then have "cut_inserts seen (a # ins) = cut_inserts seen ins"
      by (simp add: cut_inserts_def a)
    moreover have "set tids - set seen = {}" using True k by simp
    ultimately show ?thesis
      unfolding r using Cons.IH by (cases "t = x") auto
  next
    case False
    then have "cut_inserts seen (a # ins) = (t, ?kept) # cut_inserts seen ins"
      by (simp add: cut_inserts_def a)
    then have "carried (cut_inserts seen (a # ins)) x =
        (if t = x then set ?kept else {}) \<union> carried (cut_inserts seen ins) x"
      by (simp only: carried_Cons)
    then show ?thesis
      unfolding r Cons.IH k by (cases "t = x") auto
  qed
qed

text \<open>The TIDs of a triple after an operation has been applied.\<close>

lemma su_apply_graph:
  assumes "get_ticks (su_gwc S) (id_path (o_time op)) < ticks (o_time op)"
    and "o_deletes op \<noteq> [] \<or> o_inserts op \<noteq> []"
  shows "su_graph (fst (su_apply hash S op)) x =
           (su_graph S x - carried (o_deletes op) x
              - (set (seen_tids hash (su_gwc S) op) - carried (o_inserts op) x))
           \<union> (carried (o_inserts op) x - set (seen_tids hash (su_gwc S) op))"
  using assms
  by (auto simp: su_apply_def Let_def assert_tids_tids withdraw_tids carried_cut
      withdraw_omitted_def)

text \<open>
  C1. When an incoming operation is applied (it carries ticks that the GWC does not
  reflect), the TIDs with which it inserts a triple and that the GWC does not already
  reflect are added to the triple, and no other TID is. So a triple without TIDs that
  the operation carries only under reflected TIDs stays absent, and a triple carried
  under a TID that is not reflected is present.
\<close>

theorem apply_cuts_stale_inserts:
  assumes "get_ticks (su_gwc S) (id_path (o_time op)) < ticks (o_time op)"
  shows "carried (o_inserts op) x - set (seen_tids hash (su_gwc S) op)
           \<subseteq> su_graph (fst (su_apply hash S op)) x
    \<and> su_graph (fst (su_apply hash S op)) x
           \<subseteq> su_graph S x \<union> (carried (o_inserts op) x - set (seen_tids hash (su_gwc S) op))
    \<and> (su_graph S x = {} \<and> carried (o_inserts op) x \<subseteq> set (seen_tids hash (su_gwc S) op) \<longrightarrow>
         \<not> present (su_graph (fst (su_apply hash S op))) x)
    \<and> ((\<exists>tid. tid \<in> carried (o_inserts op) x \<and> tid \<notin> set (seen_tids hash (su_gwc S) op)) \<longrightarrow>
         present (su_graph (fst (su_apply hash S op))) x)"
proof (cases "o_deletes op = [] \<and> o_inserts op = []")
  case True
  then have "su_graph (fst (su_apply hash S op)) x = su_graph S x"
    and "carried (o_inserts op) x = {}"
    by (simp_all add: su_apply_def carried_Nil)
  then show ?thesis by (simp add: present_def)
next
  case False
  then have "o_deletes op \<noteq> [] \<or> o_inserts op \<noteq> []" by simp
  from su_apply_graph[OF assms this]
  have g: "su_graph (fst (su_apply hash S op)) x =
           (su_graph S x - carried (o_deletes op) x
              - (set (seen_tids hash (su_gwc S) op) - carried (o_inserts op) x))
           \<union> (carried (o_inserts op) x - set (seen_tids hash (su_gwc S) op))" .
  show ?thesis unfolding present_def g by blast
qed

lemma ex_hash_remote:
  "ex_hash (remote_time 1) = ''RL:1''" "ex_hash (remote_time 2) = ''RL:2''"
  by (simp_all add: ex_hash_def remote_time_def toString_radix.simps digit_char_one digit_char_two)

lemma ex_after_third_wilma: "su_graph ex_after_third (name_triple ''wilma'' ''Wilma'') = {}"
  by (simp add: ex_after_third_def su_apply_def seen_tids_def cut_inserts_def name_triple_def
      remote_time_def third_time_def ex_local_def op_one_def op_third_def Let_def rdf_literal_def
      withdraw_omitted_def carried_Cons carried_Nil)

lemma ex_after_third_gwc: "get_ticks (su_gwc ex_after_third) (id_path (remote_time 2)) = 1"
  by (simp add: ex_after_third_def su_apply_def seen_tids_def cut_inserts_def name_triple_def
      remote_time_def third_time_def ex_local_def op_one_def op_third_def Let_def rdf_literal_def
      withdraw_omitted_def carried_Cons carried_Nil)

lemma ex_seen: "seen_tids ex_hash (su_gwc ex_after_third) op_fusion = [''RL:1'']"
proof -
  have "ticked_to (remote_time 2) 1 = remote_time 1" by (simp add: remote_time_def)
  moreover have "ticks (remote_time 2) = 2" by (simp add: remote_time_def)
  ultimately show ?thesis
    by (simp add: seen_tids_def op_fusion_def ex_after_third_gwc upto.simps ex_hash_remote)
qed

text \<open>
  The scenario of the tests: the local clone has applied the remote's insert of
  \<open>wilma\<close> and a third clone's delete of it; the remote's fusion of that insert with a
  later insert of \<open>barney\<close> then leaves \<open>wilma\<close> absent and makes \<open>barney\<close> present.
\<close>

theorem apply_cuts_stale_inserts_witness:
  "get_ticks (su_gwc ex_after_third) (id_path (o_time op_fusion)) < ticks (o_time op_fusion)
   \<and> o_inserts op_fusion \<noteq> []
   \<and> \<not> present (su_graph (fst (su_apply ex_hash ex_after_third op_fusion)))
         (name_triple ''wilma'' ''Wilma'')
   \<and> present (su_graph (fst (su_apply ex_hash ex_after_third op_fusion)))
         (name_triple ''barney'' ''Barney'')"
proof -
  have t: "o_time op_fusion = remote_time 2" by (simp add: op_fusion_def)
  have a: "get_ticks (su_gwc ex_after_third) (id_path (o_time op_fusion)) < ticks (o_time op_fusion)"
    unfolding t ex_after_third_gwc by (simp add: remote_time_def)
  have b: "o_deletes op_fusion \<noteq> [] \<or> o_inserts op_fusion \<noteq> []"
    by (simp add: op_fusion_def)
  have w: "carried (o_inserts op_fusion) (name_triple ''wilma'' ''Wilma'')
             \<subseteq> set (seen_tids ex_hash (su_gwc ex_after_third) op_fusion)"
    unfolding ex_seen by (simp add: op_fusion_def carried_Cons carried_Nil name_triple_def)
  have c: "''RL:2'' \<in> carried (o_inserts op_fusion) (name_triple ''barney'' ''Barney'')
           \<and> ''RL:2'' \<notin> set (seen_tids ex_hash (su_gwc ex_after_third) op_fusion)"
    unfolding ex_seen by (simp add: op_fusion_def carried_Cons carried_Nil name_triple_def)
  have 1: "\<not> present (su_graph (fst (su_apply ex_hash ex_after_third op_fusion)))
         (name_triple ''wilma'' ''Wilma'')"
    using apply_cuts_stale_inserts[OF a, where hash = ex_hash
        and x = "name_triple ''wilma'' ''Wilma''"]
      ex_after_third_wilma w by blast
  have 2: "present (su_graph (fst (su_apply ex_hash ex_after_third op_fusion)))
         (name_triple ''barney'' ''Barney'')"
    using apply_cuts_stale_inserts[OF a, where hash = ex_hash
        and x = "name_triple ''barney'' ''Barney''"] c
    by blast
  have b': "o_inserts op_fusion \<noteq> []"
    by (simp add: op_fusion_def)
  from a b' 1 2 show ?thesis by blast
qed

text \<open>
  The other scenario of the tests: the local clone has applied the remote's inserts of
  \<open>wilma\<close> and of \<open>betty\<close>; the remote's fusion carries \<open>wilma\<close> and a later insert
  of \<open>barney\<close> but no longer \<open>betty\<close>, which it removes.
\<close>

lemma ex_after_betty_gwc: "get_ticks (su_gwc ex_after_betty) (id_path (remote_time 3)) = 2"
  by (simp add: ex_after_betty_def su_apply_def seen_tids_def cut_inserts_def name_triple_def
      remote_time_def ex_local_def op_one_def op_betty_def Let_def rdf_literal_def
      withdraw_omitted_def carried_Cons carried_Nil)

lemma ex_after_betty_graph:
  "su_graph ex_after_betty (name_triple ''betty'' ''Betty'') = {''RL:2''}"
  "su_graph ex_after_betty (name_triple ''wilma'' ''Wilma'') = {''RL:1''}"
  "su_graph ex_after_betty (name_triple ''barney'' ''Barney'') = {}"
  by (simp_all add: ex_after_betty_def su_apply_def seen_tids_def cut_inserts_def name_triple_def
      remote_time_def ex_local_def op_one_def op_betty_def Let_def rdf_literal_def
      withdraw_omitted_def carried_Cons carried_Nil upto.simps)

lemma ex_seen3: "seen_tids ex_hash (su_gwc ex_after_betty) op_fusion3 = [''RL:1'', ''RL:2'']"
proof -
  have "ticked_to (remote_time 3) 1 = remote_time 1" "ticked_to (remote_time 3) 2 = remote_time 2"
    by (simp_all add: remote_time_def)
  moreover have "ticks (remote_time 3) = 3" by (simp add: remote_time_def)
  ultimately show ?thesis
    by (simp add: seen_tids_def op_fusion3_def ex_after_betty_gwc upto.simps ex_hash_remote)
qed

lemma ex_fusion_omits_betty:
  "\<not> present (su_graph (fst (su_apply ex_hash ex_after_betty op_fusion3)))
       (name_triple ''betty'' ''Betty'')
   \<and> present (su_graph (fst (su_apply ex_hash ex_after_betty op_fusion3)))
       (name_triple ''wilma'' ''Wilma'')
   \<and> present (su_graph (fst (su_apply ex_hash ex_after_betty op_fusion3)))
       (name_triple ''barney'' ''Barney'')"
proof -
  have t: "o_time op_fusion3 = remote_time 3" by (simp add: op_fusion3_def)
  have a: "get_ticks (su_gwc ex_after_betty) (id_path (o_time op_fusion3)) < ticks (o_time op_fusion3)"
    unfolding t ex_after_betty_gwc by (simp add: remote_time_def)
  have b: "o_deletes op_fusion3 \<noteq> [] \<or> o_inserts op_fusion3 \<noteq> []"
    by (simp add: op_fusion3_def)
  have c: "carried (o_inserts op_fusion3) (name_triple ''betty'' ''Betty'') = {}"
    "carried (o_inserts op_fusion3) (name_triple ''wilma'' ''Wilma'') = {''RL:1''}"
    "carried (o_inserts op_fusion3) (name_triple ''barney'' ''Barney'') = {''RL:3''}"
    "carried (o_deletes op_fusion3) = (\<lambda>x. {})"
    by (auto simp: op_fusion3_def carried_Cons carried_Nil name_triple_def)
  show ?thesis
    unfolding present_def su_apply_graph[OF a b] ex_seen3 ex_after_betty_graph c
    by simp
qed

text \<open>
  C2. A local transaction whose patch resolves to no deletes and no inserts leaves the
  store as it is, so commits no entry, and returns no message and no update. A remote
  operation without deletes and inserts commits no entry and returns no message and
  no update, and the local clock is joined with the operation's time.
\<close>

theorem empty_operation_is_noop:
  "(resolve_deletes tids_list (su_graph S) (patch_delete p) = [] \<and> patch_insert p = [] \<longrightarrow>
      su_transact hash tids_list op_size maxOperationSize S p
        = (S, Inr \<lparr>r_message = None, r_update = False\<rparr>))
   \<and> (o_deletes op = [] \<and> o_inserts op = [] \<longrightarrow>
      snd (su_apply hash S op) = \<lparr>r_message = None, r_update = False\<rparr>
      \<and> su_entries (fst (su_apply hash S op)) = su_entries S
      \<and> su_graph (fst (su_apply hash S op)) = su_graph S
      \<and> su_clock (fst (su_apply hash S op)) = update (su_clock S) (scrubId (o_time op)))"
  by (simp add: su_transact_def local_operation_def su_apply_def no_result_def Let_def)

theorem empty_operation_is_noop_witness:
  "su_transact ex_hash (sorted_list_of_set) (\<lambda>op. 0) None ex_local
       \<lparr>patch_delete = [name_triple ''wilma'' ''Wilma''], patch_insert = []\<rparr>
     = (ex_local, Inr \<lparr>r_message = None, r_update = False\<rparr>)
   \<and> snd (su_apply ex_hash ex_local op_noop) = \<lparr>r_message = None, r_update = False\<rparr>
   \<and> su_entries (fst (su_apply ex_hash ex_local op_noop)) = su_entries ex_local
   \<and> su_clock (fst (su_apply ex_hash ex_local op_noop))
       = IdLeft 0 (IdLeaf 2) (TFork 0 (TLeaf 1) (TLeaf 0))"
proof -
  have r: "resolve_deletes sorted_list_of_set (su_graph ex_local)
             (patch_delete \<lparr>patch_delete = [name_triple ''wilma'' ''Wilma''], patch_insert = []\<rparr>) = []
           \<and> patch_insert \<lparr>patch_delete = [name_triple ''wilma'' ''Wilma''], patch_insert = []\<rparr> = []"
    by (simp add: resolve_deletes_def ex_local_def name_triple_def)
  have n: "o_deletes op_noop = [] \<and> o_inserts op_noop = []"
    by (simp add: op_noop_def)
  have u: "update (su_clock ex_local) (scrubId (o_time op_noop))
             = IdLeft 0 (IdLeaf 2) (TFork 0 (TLeaf 1) (TLeaf 0))"
    by (simp add: ex_local_def op_noop_def remote_time_def)
  show ?thesis
    using empty_operation_is_noop[where tids_list = sorted_list_of_set and S = ex_local
        and p = "\<lparr>patch_delete = [name_triple ''wilma'' ''Wilma''], patch_insert = []\<rparr>"
        and hash = ex_hash and op_size = "\<lambda>op. 0" and maxOperationSize = None
        and op = op_noop] r n u
    by simp
qed

text \<open>
  C3. When a limit is configured and the operation of a local transaction is larger, the
  transaction aborts with \<open>OperationSizeExceeded\<close>: there is no message, and the store
  (graph, clock and journal entries) is as before.
\<close>

theorem operation_size_limit:
  assumes "local_operation hash tids_list S p = Some op"
    and "maxOperationSize = Some limit" and "limit < op_size op"
  shows "snd (su_transact hash tids_list op_size maxOperationSize S p) = Inl OperationSizeExceeded
    \<and> fst (su_transact hash tids_list op_size maxOperationSize S p) = S
    \<and> su_entries (fst (su_transact hash tids_list op_size maxOperationSize S p)) = su_entries S
    \<and> su_graph (fst (su_transact hash tids_list op_size maxOperationSize S p)) = su_graph S"
  using assms by (simp add: su_transact_def)

theorem operation_size_limit_witness:
  "local_operation ex_hash sorted_list_of_set ex_genesis ex_insert_fred =
      Some \<lparr>o_version = 2, o_from = 1, o_time = IdLeaf 1, o_deletes = [],
            o_inserts = [(name_triple ''fred'' ''Fred'', ['':1''])]\<rparr>
   \<and> 1 < ex_op_size \<lparr>o_version = 2, o_from = 1, o_time = IdLeaf 1, o_deletes = [],
            o_inserts = [(name_triple ''fred'' ''Fred'', ['':1''])]\<rparr>
   \<and> su_transact ex_hash sorted_list_of_set ex_op_size (Some 1) ex_genesis ex_insert_fred
       = (ex_genesis, Inl OperationSizeExceeded)"
proof -
  let ?op = "\<lparr>o_version = 2, o_from = 1, o_time = IdLeaf 1, o_deletes = [],
            o_inserts = [(name_triple ''fred'' ''Fred'', ['':1''])]\<rparr>"
  have h: "ex_hash (IdLeaf 1) = '':1''"
    by (simp add: ex_hash_def toString_radix.simps digit_char_one)
  have a: "local_operation ex_hash sorted_list_of_set ex_genesis ex_insert_fred = Some ?op"
    by (simp add: local_operation_def resolve_deletes_def ex_genesis_def ex_insert_fred_def
        GENESIS_def h)
  have b: "1 < ex_op_size ?op"
    by (simp add: ex_op_size_def name_triple_def rdf_literal_def)
  have c: "Some (1::nat) = Some 1" by simp
  from operation_size_limit[where op_size = ex_op_size, OF a c b] a b show ?thesis
    by (simp add: prod_eq_iff)
qed


end
